theory Spec2Isabelle
  imports Main "HOL-Library.Word" "HOL-Library.Multiset"
begin

section \<open>The GrayLog input plugin (plugins/inputs/graylog/graylog.go)\<close>

text \<open>
  A shallow embedding of the plugin's four functions \<open>flatten\<close>, \<open>sendRequest\<close>,
  \<open>gatherServer\<close> and \<open>Gather\<close>. Go maps are association lists whose order is the
  order in which \<open>range\<close> visits the entries (any order is possible, so every theorem
  quantifies over the list); errors are values; a run-time panic is a value of type
  \<open>panic\<close>. The Go standard library and the network are parameters, collected in the
  record \<open>env\<close>.
\<close>

subsection \<open>Go values held in an \<open>interface{}\<close>\<close>

text \<open>
  A \<open>float64\<close> is its IEEE-754 bit pattern: the plugin only copies such values.
  \<open>VInt\<close> is a Go \<open>int\<close>, on which no arithmetic is done either.
\<close>

type_synonym float64 = "64 word"

datatype val =
    VInt int
  | VFloat64 float64
  | VMap "(string \<times> val) list"
  | VString string
  | VBool bool
  | VSlice "val list"
  | VNil

datatype panic = InterfaceConversion | NilPointerDereference

datatype error = errors_New string

fun Error :: "error \<Rightarrow> string" where
  "Error (errors_New s) = s"

type_synonym fields = "string \<rightharpoonup> val"

subsection \<open>flatten (lines 220-235)\<close>

text \<open>
  \<open>flatten\<close> adjusts the prefix and then runs the \<open>range\<close> loop, \<open>flatten_range\<close>.
  In the \<open>case int\<close> branch the type assertion \<open>i.(float64)\<close> is applied to a
  value whose dynamic type is \<open>int\<close>: it panics. The parameter \<open>id\<close> of the source
  is \<open>idp\<close> here, \<open>id\<close> being the identity function of HOL.
\<close>

function flatten :: "(string \<times> val) list \<Rightarrow> fields \<Rightarrow> string \<Rightarrow> panic + fields"
  and flatten_range :: "(string \<times> val) list \<Rightarrow> fields \<Rightarrow> string \<Rightarrow> panic + fields"
where
  "flatten item fields idp =
     flatten_range item fields (if idp \<noteq> '''' then idp @ ''_'' else idp)"
| "flatten_range [] fields idp = Inr fields"
| "flatten_range ((k, i) # rest) fields idp =
     (case i of
        VInt n \<Rightarrow> Inl InterfaceConversion
      | VFloat64 f \<Rightarrow> flatten_range rest (fields(idp @ k \<mapsto> VFloat64 f)) idp
      | VMap m \<Rightarrow>
          (case flatten m fields (idp @ k) of
             Inl p \<Rightarrow> Inl p
           | Inr fields' \<Rightarrow> flatten_range rest fields' idp)
      | _ \<Rightarrow> flatten_range rest fields idp)"
  by pat_completeness auto
termination
  by (relation "measure (\<lambda>x. case x of
          Inl (item, _, _) \<Rightarrow> 2 * size_list (size_prod (\<lambda>_. 0) size) item + 1
        | Inr (item, _, _) \<Rightarrow> 2 * size_list (size_prod (\<lambda>_. 0) size) item)") auto

text \<open>
  The assignments \<open>fields[id+k] = ...\<close> that \<open>flatten\<close> executes when it meets no
  Go \<open>int\<close>, as pairs of key and value in the order in which they are executed:
  the entries are visited in the order of the list, and a nested mapping is flattened
  where it is met.
\<close>

function flatten_writes :: "(string \<times> val) list \<Rightarrow> string \<Rightarrow> (string \<times> val) list"
  and flatten_range_writes :: "(string \<times> val) list \<Rightarrow> string \<Rightarrow> (string \<times> val) list"
where
  "flatten_writes item idp =
     flatten_range_writes item (if idp \<noteq> '''' then idp @ ''_'' else idp)"
| "flatten_range_writes [] idp = []"
| "flatten_range_writes ((k, i) # rest) idp =
     (case i of
        VFloat64 f \<Rightarrow> [(idp @ k, VFloat64 f)]
      | VMap m \<Rightarrow> flatten_writes m (idp @ k)
      | _ \<Rightarrow> [])
     @ flatten_range_writes rest idp"
  by pat_completeness auto
termination
  by (relation "measure (\<lambda>x. case x of
          Inl (item, _) \<Rightarrow> 2 * size_list (size_prod (\<lambda>_. 0) size) item + 1
        | Inr (item, _) \<Rightarrow> 2 * size_list (size_prod (\<lambda>_. 0) size) item)") auto

text \<open>Executing a list of assignments on a mapping.\<close>

definition assign_all :: "(string \<times> val) list \<Rightarrow> fields \<Rightarrow> fields" where
  "assign_all ws fs = fold (\<lambda>kv m. m(fst kv \<mapsto> snd kv)) ws fs"

text \<open>The value found by following a path of keys through nested maps.\<close>

fun value_at :: "(string \<times> val) list \<Rightarrow> string list \<Rightarrow> val option" where
  "value_at item [] = None"
| "value_at item [k] = map_of item k"
| "value_at item (k # p) =
     (case map_of item k of Some (VMap m) \<Rightarrow> value_at m p | _ \<Rightarrow> None)"

text \<open>
  The key under which \<open>flatten\<close>, entered with prefix \<open>idp\<close>, stores the leaf at a
  path: each level appends an underscore to a non-empty prefix, then the key.
\<close>

fun key_of :: "string \<Rightarrow> string list \<Rightarrow> string" where
  "key_of idp [] = idp"
| "key_of idp (k # p) = key_of ((if idp \<noteq> '''' then idp @ ''_'' else idp) @ k) p"

text \<open>A Go map has one entry per key, at every level of nesting.\<close>

fun distinct_keys :: "val \<Rightarrow> bool" where
  "distinct_keys (VMap m) = (distinct (map fst m) \<and> (\<forall>(k, v) \<in> set m. distinct_keys v))"
| "distinct_keys _ = True"

text \<open>No Go \<open>int\<close> is met when descending through the nested maps.\<close>

fun no_int :: "val \<Rightarrow> bool" where
  "no_int (VInt n) = False"
| "no_int (VMap m) = (\<forall>(k, v) \<in> set m. no_int v)"
| "no_int _ = True"

fun is_float64 :: "val \<Rightarrow> bool" where
  "is_float64 (VFloat64 f) = True"
| "is_float64 _ = False"

fun is_map :: "val \<Rightarrow> bool" where
  "is_map (VMap m) = True"
| "is_map _ = False"

subsection \<open>Functions of the Go standard library that are modelled in full\<close>

text \<open>\<open>strings.Contains\<close> and \<open>strings.Join\<close>.\<close>

fun strings_Contains :: "string \<Rightarrow> string \<Rightarrow> bool" where
  "strings_Contains [] substr = (substr = [])"
| "strings_Contains (c # s) substr =
     (take (length substr) (c # s) = substr \<or> strings_Contains s substr)"

fun strings_Join :: "string list \<Rightarrow> string \<Rightarrow> string" where
  "strings_Join [] sep = []"
| "strings_Join [x] sep = x"
| "strings_Join (x # y # xs) sep = x @ sep @ strings_Join (y # xs) sep"

text \<open>The verb \<open>%d\<close> of \<open>fmt\<close> on an \<open>int\<close>: decimal digits, with a sign when negative.\<close>

fun digits :: "nat \<Rightarrow> string" where
  "digits n =
     (if n < 10 then [char_of (48 + n)] else digits (n div 10) @ [char_of (48 + n mod 10)])"

declare digits.simps [simp del]

definition fmt_d :: "int \<Rightarrow> string" where
  "fmt_d i = (if i < 0 then ''-'' @ digits (nat (- i)) else digits (nat i))"

text \<open>
  \<open>encoding/base64\<close> (RFC 4648): \<open>StdEncoding\<close> uses the alphabet \<open>encodeStd\<close>,
  \<open>URLEncoding\<close> the alphabet \<open>encodeURL\<close>; both pad with \<open>=\<close>.
\<close>

definition encodeStd :: string where
  "encodeStd = ''ABCDEFGHIJKLMNOPQRSTUVWXYZabcdefghijklmnopqrstuvwxyz0123456789+/''"

definition encodeURL :: string where
  "encodeURL = ''ABCDEFGHIJKLMNOPQRSTUVWXYZabcdefghijklmnopqrstuvwxyz0123456789-_''"

fun EncodeToString :: "string \<Rightarrow> string \<Rightarrow> string" where
  "EncodeToString enc [] = []"
| "EncodeToString enc [a] =
     (let x = (of_char a :: nat) in
      [enc ! (x div 4), enc ! ((x mod 4) * 16), CHR ''='', CHR ''=''])"
| "EncodeToString enc [a, b] =
     (let x = (of_char a :: nat); y = (of_char b :: nat) in
      [enc ! (x div 4), enc ! ((x mod 4) * 16 + y div 16), enc ! ((y mod 16) * 4), CHR ''=''])"
| "EncodeToString enc (a # b # c # src) =
     (let x = (of_char a :: nat); y = (of_char b :: nat); z = (of_char c :: nat) in
      [enc ! (x div 4), enc ! ((x mod 4) * 16 + y div 16),
       enc ! ((y mod 16) * 4 + z div 64), enc ! (z mod 64)] @ EncodeToString enc src)"

subsection \<open>The plugin's data (lines 22-69)\<close>

record Metric =
  FullName :: string
  Name :: string
  Type :: string
  Fields :: "(string \<times> val) list"

record ResponseMetrics =
  total :: int
  ResponseMetrics_Metrics :: "Metric list"

text \<open>
  A slice of strings that may be nil is a \<open>string list option\<close>, \<open>None\<close> being the
  nil slice: \<open>json.Marshal\<close> tells nil from an empty slice. (\<open>Servers\<close> is only
  ranged over and measured, where nil and empty behave alike.)
\<close>

record Messagebody =
  Messagebody_Metrics :: "string list option"

typedecl tls_Config

text \<open>Durations are in nanoseconds, as \<open>time.Duration\<close> is.\<close>

record http_Transport =
  ResponseHeaderTimeout :: int
  TLSClientConfig :: "tls_Config option"

record http_Client =
  Transport :: http_Transport
  Timeout :: int

record GrayLog =
  Servers :: "string list"
  Metrics :: "string list option"
  Username :: string
  Password :: string
  SSLCA :: string
  SSLCert :: string
  SSLKey :: string
  InsecureSkipVerify :: bool
  client :: "http_Client option"

text \<open>Of a parsed \<open>url.URL\<close> the plugin uses the field \<open>Host\<close> and the method \<open>String\<close>.\<close>

record URL =
  URL_Host :: string
  URL_String :: string

record Request =
  Request_Method :: string
  Request_URL :: string
  Request_Body :: string
  Request_Header :: "string \<rightharpoonup> string list"

text \<open>
  \<open>ioutil.ReadAll\<close> on the body of a response returns the bytes read and possibly an
  error: \<open>Response_Body\<close> and \<open>Response_ReadErr\<close>.
\<close>

record Response =
  StatusCode :: int
  Response_Body :: string
  Response_ReadErr :: "error option"

text \<open>
  The environment: the standard library functions that are not modelled, the transport
  behind \<open>h.client.MakeRequest\<close> (within one cycle a request determines its answer),
  the clock, and \<open>internal.GetTLSConfig\<close>. \<open>json_escape\<close> is the encoding that
  \<open>json.Marshal\<close> gives to a string in need of escapes.
  \<open>http_NewRequest_err\<close> is the error of \<open>http.NewRequest\<close>, if any, for a method,
  a URL and a body; \<open>net_SplitHostPort\<close> returns host, port and error.
\<close>

record env =
  url_Parse :: "string \<Rightarrow> error + URL"
  json_escape :: "string \<Rightarrow> string"
  http_NewRequest_err :: "string \<Rightarrow> string \<Rightarrow> string \<Rightarrow> error option"
  MakeRequest :: "Request \<Rightarrow> error + Response"
  time_Since :: "Request \<Rightarrow> float64"
  http_StatusText :: "int \<Rightarrow> string"
  json_Unmarshal :: "string \<Rightarrow> error + ResponseMetrics"
  net_SplitHostPort :: "string \<Rightarrow> string \<times> string \<times> error option"
  GetTLSConfig :: "string \<Rightarrow> string \<Rightarrow> string \<Rightarrow> bool \<Rightarrow> error + tls_Config option"

definition http_StatusOK :: int where
  "http_StatusOK = 200"

definition http_NewRequest :: "env \<Rightarrow> string \<Rightarrow> string \<Rightarrow> string \<Rightarrow> error + Request" where
  "http_NewRequest e method u body =
     (case http_NewRequest_err e method u body of
        Some err \<Rightarrow> Inl err
      | None \<Rightarrow> Inr \<lparr>Request_Method = method, Request_URL = u, Request_Body = body,
                     Request_Header = Map.empty\<rparr>)"

text \<open>
  \<open>req.Header.Add(k, v)\<close> appends \<open>v\<close> to the values of the key \<open>k\<close>; the three keys
  that \<open>sendRequest\<close> adds are in canonical form already.
\<close>

definition Header_Add :: "string \<times> string \<Rightarrow> Request \<Rightarrow> Request" where
  "Header_Add kv req =
     req\<lparr>Request_Header := (Request_Header req)(fst kv \<mapsto>
            (case Request_Header req (fst kv) of None \<Rightarrow> [snd kv] | Some vs \<Rightarrow> vs @ [snd kv]))\<rparr>"

text \<open>The accumulator is the list of the calls of \<open>AddFields\<close>, in order.\<close>

record AddedFields =
  measurement :: string
  added_fields :: fields
  added_tags :: "string \<rightharpoonup> string"

type_synonym Accumulator = "AddedFields list"

definition AddFields :: "Accumulator \<Rightarrow> string \<Rightarrow> fields \<Rightarrow> (string \<rightharpoonup> string) \<Rightarrow> Accumulator" where
  "AddFields acc m fs tags = acc @ [\<lparr>measurement = m, added_fields = fs, added_tags = tags\<rparr>]"

subsection \<open>sendRequest (lines 244-299)\<close>

definition float64_minus_1 :: float64 where
  "float64_minus_1 = 0xBFF0000000000000"

definition dquote :: string where
  "dquote = [CHR 0x22]"

text \<open>
  \<open>json.Marshal\<close> of a \<open>Messagebody\<close> (lines 67-69): an object with the one member
  \<open>metrics\<close>, the tag of the field. A nil slice is encoded as \<open>null\<close>, any other
  slice as the array of its strings. A string all of whose bytes are printable ASCII
  other than the quote, the backslash, \<open><\<close>, \<open>>\<close> and \<open>&\<close> is copied between quotes;
  the encoding of any other string, which needs escapes, is the parameter
  \<open>json_escape\<close> of the environment. On this struct \<open>json.Marshal\<close> returns no error.
\<close>

definition json_plain :: "char \<Rightarrow> bool" where
  "json_plain c \<longleftrightarrow>
     0x20 \<le> (of_char c :: nat) \<and> (of_char c :: nat) < 0x7F \<and>
     c \<notin> {CHR 0x22, CHR 0x5C, CHR ''<'', CHR ''>'', CHR ''&''}"

definition json_string :: "env \<Rightarrow> string \<Rightarrow> string" where
  "json_string e s = (if list_all json_plain s then dquote @ s @ dquote else json_escape e s)"

definition json_Marshal :: "env \<Rightarrow> Messagebody \<Rightarrow> error + string" where
  "json_Marshal e m =
     Inr (''{'' @ dquote @ ''metrics'' @ dquote @ '':''
          @ (case Messagebody_Metrics m of
               None \<Rightarrow> ''null''
             | Some names \<Rightarrow> ''['' @ strings_Join (map (json_string e) names) '','' @ '']'')
          @ ''}'')"

text \<open>The three messages built with \<open>fmt.Errorf\<close>; \<open>%s\<close> prints a slice of strings
  between brackets, separated by spaces.\<close>

definition invalid_url_error :: "string \<Rightarrow> error" where
  "invalid_url_error serverURL =
     errors_New (''Invalid server URL '' @ dquote @ serverURL @ dquote)"

definition invalid_metrics_error :: "string list option \<Rightarrow> error" where
  "invalid_metrics_error ms =
     errors_New (''Invalid list of Metrics [''
       @ strings_Join (case ms of None \<Rightarrow> [] | Some names \<Rightarrow> names) '' '' @ '']'')"

definition status_error :: "env \<Rightarrow> string \<Rightarrow> int \<Rightarrow> error" where
  "status_error e u code =
     errors_New (''Response from url '' @ dquote @ u @ dquote @ '' has status code ''
       @ fmt_d code @ '' ('' @ http_StatusText e code @ ''), expected ''
       @ fmt_d http_StatusOK @ '' ('' @ http_StatusText e http_StatusOK @ '')'')"

text \<open>
  The result is the list of the requests handed to \<open>h.client.MakeRequest\<close> (none or
  one), followed by the three values the Go function returns. The entries of
  \<open>headers\<close> have different keys, so the order in which \<open>range\<close> visits them does
  not change the header of the request.
\<close>

definition sendRequest ::
  "GrayLog \<Rightarrow> env \<Rightarrow> string \<Rightarrow> Request list \<times> string \<times> float64 \<times> error option" where
  "sendRequest h e serverURL =
     (let headers = [(''Content-Type'', ''application/json''),
                     (''Accept'', ''application/json'')];
          method = ''GET'';
          content = '''';
          headers = headers @ [(''Authorization'',
            ''Basic '' @ EncodeToString encodeURL (Username h @ '':'' @ Password h))]
      in case url_Parse e serverURL of
           Inl err \<Rightarrow> ([], '''', float64_minus_1, Some (invalid_url_error serverURL))
         | Inr requestURL \<Rightarrow>
            (case (if strings_Contains (URL_String requestURL) ''multiple''
                   then (case json_Marshal e \<lparr>Messagebody_Metrics = Metrics h\<rparr> of
                           Inl err \<Rightarrow> Inl (invalid_metrics_error (Metrics h))
                         | Inr http_body \<Rightarrow> Inr (''POST'', http_body))
                   else Inr (method, content)) of
               Inl err \<Rightarrow> ([], '''', float64_minus_1, Some err)
             | Inr (method, content) \<Rightarrow>
                (case http_NewRequest e method (URL_String requestURL) content of
                   Inl err \<Rightarrow> ([], '''', float64_minus_1, Some err)
                 | Inr req0 \<Rightarrow>
                    (let req = fold Header_Add headers req0 in
                     case MakeRequest e req of
                       Inl err \<Rightarrow> ([req], '''', float64_minus_1, Some err)
                     | Inr resp \<Rightarrow>
                        (let responseTime = time_Since e req;
                             body = Response_Body resp
                         in case Response_ReadErr resp of
                              Some err \<Rightarrow> ([req], body, responseTime, Some err)
                            | None \<Rightarrow>
                                if StatusCode resp \<noteq> http_StatusOK
                                then ([req], body, responseTime,
                                      Some (status_error e (URL_String requestURL)
                                              (StatusCode resp)))
                                else ([req], body, responseTime, None))))))"

subsection \<open>gatherServer (lines 182-211)\<close>

text \<open>The loop over \<open>dat.Metrics\<close>.\<close>

fun gatherServer_range ::
  "Metric list \<Rightarrow> string \<Rightarrow> string \<Rightarrow> Accumulator \<Rightarrow> panic + Accumulator" where
  "gatherServer_range [] host port acc = Inr acc"
| "gatherServer_range (m_item # rest) host port acc =
     (let fields = Map.empty;
          tags = [''server'' \<mapsto> host, ''port'' \<mapsto> port,
                  ''name'' \<mapsto> Name m_item, ''type'' \<mapsto> Type m_item]
      in case flatten (Fields m_item) fields '''' of
           Inl p \<Rightarrow> Inl p
         | Inr fields \<Rightarrow>
             gatherServer_range rest host port (AddFields acc (FullName m_item) fields tags))"

text \<open>
  Line 191 reads \<open>requestURL.Host\<close> before line 193 tests the error of \<open>url.Parse\<close>:
  were the parse to fail, \<open>requestURL\<close> would be nil and the read would panic.
  The error of \<open>net.SplitHostPort\<close> is assigned to the blank identifier.
\<close>

definition gatherServer ::
  "GrayLog \<Rightarrow> env \<Rightarrow> Accumulator \<Rightarrow> string \<Rightarrow> panic + (error option \<times> Accumulator)" where
  "gatherServer h e acc serverURL =
     (case sendRequest h e serverURL of
        (sent, resp, responseTime, Some err) \<Rightarrow> Inr (Some err, acc)
      | (sent, resp, responseTime, None) \<Rightarrow>
          (case url_Parse e serverURL of
             Inl err \<Rightarrow> Inl NilPointerDereference
           | Inr requestURL \<Rightarrow>
               (case net_SplitHostPort e (URL_Host requestURL) of
                  (host, port, split_err) \<Rightarrow>
                    (case json_Unmarshal e resp of
                       Inl err \<Rightarrow> Inr (Some err, acc)
                     | Inr dat \<Rightarrow>
                         (case gatherServer_range (ResponseMetrics_Metrics dat) host port acc of
                            Inl p \<Rightarrow> Inl p
                          | Inr acc' \<Rightarrow> Inr (None, acc'))))))"

subsection \<open>Gather (lines 127-172)\<close>

text \<open>
  One goroutine per server runs \<open>gatherServer\<close> and sends its error, if any, on
  \<open>errorChannel\<close>. The model runs the goroutines one after another in the order
  \<open>sched\<close>, which is any arrangement of \<open>h.Servers\<close>; a panic in a goroutine ends
  the program.
\<close>

fun Gather_tasks ::
  "GrayLog \<Rightarrow> env \<Rightarrow> string list \<Rightarrow> Accumulator \<Rightarrow> error list
     \<Rightarrow> panic + (Accumulator \<times> error list)" where
  "Gather_tasks h e [] acc errorChannel = Inr (acc, errorChannel)"
| "Gather_tasks h e (server # sched) acc errorChannel =
     (case gatherServer h e acc server of
        Inl p \<Rightarrow> Inl p
      | Inr (None, acc') \<Rightarrow> Gather_tasks h e sched acc' errorChannel
      | Inr (Some err, acc') \<Rightarrow> Gather_tasks h e sched acc' (errorChannel @ [err]))"

definition time_Second :: int where
  "time_Second = 1000000000"

definition Gather ::
  "GrayLog \<Rightarrow> env \<Rightarrow> string list \<Rightarrow> Accumulator
     \<Rightarrow> panic + (error option \<times> Accumulator \<times> GrayLog)" where
  "Gather h e sched acc =
     (case (if client h = None
            then (case GetTLSConfig e (SSLCert h) (SSLKey h) (SSLCA h) (InsecureSkipVerify h) of
                    Inl err \<Rightarrow> Inl err
                  | Inr tlsCfg \<Rightarrow>
                      Inr (h\<lparr>client := Some
                             \<lparr>Transport = \<lparr>ResponseHeaderTimeout = 3 * time_Second,
                                           TLSClientConfig = tlsCfg\<rparr>,
                              Timeout = 4 * time_Second\<rparr>\<rparr>))
            else Inr h) of
        Inl err \<Rightarrow> Inr (Some err, acc, h)
      | Inr h' \<Rightarrow>
          (case Gather_tasks h' e sched acc [] of
             Inl p \<Rightarrow> Inl p
           | Inr (acc', errorChannel) \<Rightarrow>
               (let errorStrings = map Error errorChannel in
                if length errorStrings = 0 then Inr (None, acc', h')
                else Inr (Some (errors_New (strings_Join errorStrings [CHR 0x0A])), acc', h'))))"

subsection \<open>Auxiliary notions and example inputs\<close>

text \<open>
  \<open>stored_from item idp k v\<close>: the loop of \<open>flatten\<close> over \<open>item\<close>, run with the
  adjusted prefix \<open>idp\<close>, may store \<open>v\<close> under \<open>k\<close> because \<open>v\<close> is a
  \<open>float64\<close> found in \<open>item\<close> at a path that yields this key.
\<close>

definition stored_from :: "(string \<times> val) list \<Rightarrow> string \<Rightarrow> string \<Rightarrow> val \<Rightarrow> bool" where
  "stored_from item idp k v \<longleftrightarrow>
     (\<exists>k0 p. value_at item (k0 # p) = Some v \<and> is_float64 v \<and> k = key_of (idp @ k0) p)"

text \<open>The bit patterns of 1.0, 2.0 and 2.5.\<close>

definition float64_1 :: float64 where
  "float64_1 = 0x3FF0000000000000"

definition float64_2 :: float64 where
  "float64_2 = 0x4000000000000000"

definition float64_2_5 :: float64 where
  "float64_2_5 = 0x4004000000000000"

text \<open>
  \<open>{"x": 1.0, "y": {"z": 2.5}}\<close>; \<open>{"x": 1.0, "y": 2.5}\<close>;
  \<open>{"a": {"b": 1.0}, "a_b": 2.0}\<close>, in which two paths yield the key \<open>a_b\<close>;
  \<open>{"": {"b": 1.0}}\<close>, with an empty key; \<open>{"a": 1}\<close> holding a Go \<open>int\<close>;
  \<open>{"s": "x"}\<close>.
\<close>

definition ex_nested :: "(string \<times> val) list" where
  "ex_nested = [(''x'', VFloat64 float64_1), (''y'', VMap [(''z'', VFloat64 float64_2_5)])]"

definition ex_flat :: "(string \<times> val) list" where
  "ex_flat = [(''x'', VFloat64 float64_1), (''y'', VFloat64 float64_2_5)]"

definition ex_collision :: "(string \<times> val) list" where
  "ex_collision = [(''a'', VMap [(''b'', VFloat64 float64_1)]), (''a_b'', VFloat64 float64_2)]"

definition ex_empty_key :: "(string \<times> val) list" where
  "ex_empty_key = [('''', VMap [(''b'', VFloat64 float64_1)])]"

definition ex_int :: "(string \<times> val) list" where
  "ex_int = [(''a'', VInt 1)]"

definition ex_string :: "(string \<times> val) list" where
  "ex_string = [(''s'', VString ''x'')]"

text \<open>
  \<open>encoding/json\<close> decodes a JSON number held in an \<open>interface{}\<close> into a
  \<open>float64\<close>, never into an \<open>int\<close>: \<open>json_decodes_no_int e\<close> says so of the
  decoder of the environment.
\<close>

definition json_decodes_no_int :: "env \<Rightarrow> bool" where
  "json_decodes_no_int e \<longleftrightarrow>
     (\<forall>body dat. json_Unmarshal e body = Inr dat \<longrightarrow>
        list_all (\<lambda>m. no_int (VMap (Fields m))) (ResponseMetrics_Metrics dat))"

text \<open>The output of \<open>flatten\<close> on a fresh mapping, when it returns.\<close>

definition flattened :: "(string \<times> val) list \<Rightarrow> fields" where
  "flattened item = (case flatten item Map.empty '''' of Inr fs \<Rightarrow> fs | Inl p \<Rightarrow> Map.empty)"

text \<open>The record that \<open>gatherServer\<close> hands to \<open>AddFields\<close> for one metric.\<close>

definition record_of :: "string \<Rightarrow> string \<Rightarrow> Metric \<Rightarrow> AddedFields" where
  "record_of host port m =
     \<lparr>measurement = FullName m, added_fields = flattened (Fields m),
      added_tags = [''server'' \<mapsto> host, ''port'' \<mapsto> port,
                    ''name'' \<mapsto> Name m, ''type'' \<mapsto> Type m]\<rparr>"

text \<open>What one endpoint's gather returns and what it emits, starting from an empty
  accumulator.\<close>

definition endpoint_error :: "GrayLog \<Rightarrow> env \<Rightarrow> string \<Rightarrow> error option" where
  "endpoint_error h e server =
     (case gatherServer h e [] server of Inr (err, recs) \<Rightarrow> err | Inl p \<Rightarrow> None)"

definition endpoint_records :: "GrayLog \<Rightarrow> env \<Rightarrow> string \<Rightarrow> AddedFields list" where
  "endpoint_records h e server =
     (case gatherServer h e [] server of Inr (err, recs) \<Rightarrow> recs | Inl p \<Rightarrow> [])"

text \<open>The error value that \<open>sendRequest\<close> returns.\<close>

definition sendRequest_err :: "GrayLog \<Rightarrow> env \<Rightarrow> string \<Rightarrow> error option" where
  "sendRequest_err h e serverURL = snd (snd (snd (sendRequest h e serverURL)))"

text \<open>
  An example configuration and environment. The server \<open>ex_namespace\<close> answers 500;
  every other one, such as \<open>ex_multiple\<close> and \<open>ex_no_port\<close> (whose authority has
  no port), answers 200 with a body that decodes to one metric. \<open>ex_bad\<close> is a URL
  that does not parse. \<open>url.Parse\<close> rejects a URL with the control character
  DEL; \<open>net.SplitHostPort\<close> fails on an authority without a port.
\<close>

definition ex_multiple :: string where
  "ex_multiple = ''http://graylog:12900/system/metrics/multiple''"

definition ex_namespace :: string where
  "ex_namespace = ''http://down/system/metrics/namespace/jvm''"

definition ex_no_port :: string where
  "ex_no_port = ''http://graylog/system/metrics/multiple''"

definition ex_bad :: string where
  "ex_bad = ''http://graylog'' @ [CHR 0x7F]"

definition ex_h :: GrayLog where
  "ex_h = \<lparr>Servers = [ex_multiple, ex_namespace, ex_bad], Metrics = Some [''jvm.cl.loaded''],
           Username = ''admin'', Password = ''pw?'',
           SSLCA = '''', SSLCert = '''', SSLKey = '''', InsecureSkipVerify = False,
           client = None\<rparr>"

definition ex_post_body :: string where
  "ex_post_body = ''{'' @ dquote @ ''metrics'' @ dquote @ '':['' @ dquote @ ''jvm.cl.loaded''
                    @ dquote @ '']}''"

definition ex_host :: "string \<Rightarrow> string" where
  "ex_host u = takeWhile (\<lambda>c. c \<noteq> CHR ''/'') (drop 7 u)"

definition ex_metric :: Metric where
  "ex_metric = \<lparr>FullName = ''m'', Name = ''n'', Type = ''t'', Fields = ex_nested\<rparr>"

definition ex_env :: env where
  "ex_env =
     \<lparr>url_Parse = (\<lambda>s. if CHR 0x7F \<in> set s
                         then Inl (errors_New ''net/url: invalid control character in URL'')
                         else Inr \<lparr>URL_Host = ex_host s, URL_String = s\<rparr>),
      json_escape = (\<lambda>s. dquote @ ''?'' @ dquote),
      http_NewRequest_err = (\<lambda>method u body. None),
      MakeRequest = (\<lambda>req. if Request_URL req = ex_namespace
                            then Inr \<lparr>StatusCode = 500, Response_Body = '''',
                                      Response_ReadErr = None\<rparr>
                            else Inr \<lparr>StatusCode = 200, Response_Body = ''{}'',
                                      Response_ReadErr = None\<rparr>),
      time_Since = (\<lambda>req. 0),
      http_StatusText = (\<lambda>code. if code = 200 then ''OK''
                                  else if code = 500 then ''Internal Server Error'' else ''''),
      json_Unmarshal = (\<lambda>body. Inr \<lparr>total = 0, ResponseMetrics_Metrics = [ex_metric]\<rparr>),
      net_SplitHostPort = (\<lambda>a. if CHR '':'' \<in> set a
                                then (takeWhile (\<lambda>c. c \<noteq> CHR '':'') a,
                                      tl (dropWhile (\<lambda>c. c \<noteq> CHR '':'') a), None)
                                else ('''', '''', Some (errors_New ''missing port in address''))),
      GetTLSConfig = (\<lambda>cert key ca insecure. Inr None)\<rparr>"

text \<open>The same server answering 500 with a body that cannot be read to its end.\<close>

definition ex_env_truncated :: env where
  "ex_env_truncated =
     ex_env\<lparr>MakeRequest := (\<lambda>req. Inr \<lparr>StatusCode = 500, Response_Body = '''',
                                         Response_ReadErr = Some (errors_New ''unexpected EOF'')\<rparr>)\<rparr>"

text \<open>An environment in which the TLS configuration cannot be loaded.\<close>

definition ex_env_no_tls :: env where
  "ex_env_no_tls =
     ex_env\<lparr>GetTLSConfig := (\<lambda>cert key ca insecure.
                               Inl (errors_New ''could not load TLS CA''))\<rparr>"

text \<open>
  Two parts of \<open>sendRequest\<close>, named for the proofs: the request it builds for a
  parsed URL (lines 245-273) and what it returns once a response has arrived
  (lines 280-298). Lemma \<open>sendRequest_unfold\<close> shows that \<open>sendRequest\<close> is
  composed of them.
\<close>

definition sendRequest_headers :: "GrayLog \<Rightarrow> (string \<times> string) list" where
  "sendRequest_headers h =
     [(''Content-Type'', ''application/json''), (''Accept'', ''application/json''),
      (''Authorization'',
       ''Basic '' @ EncodeToString encodeURL (Username h @ '':'' @ Password h))]"

definition built_request :: "GrayLog \<Rightarrow> env \<Rightarrow> URL \<Rightarrow> error + Request" where
  "built_request h e requestURL =
     (if strings_Contains (URL_String requestURL) ''multiple''
      then (case json_Marshal e \<lparr>Messagebody_Metrics = Metrics h\<rparr> of
              Inl err \<Rightarrow> Inl (invalid_metrics_error (Metrics h))
            | Inr http_body \<Rightarrow>
                (case http_NewRequest_err e ''POST'' (URL_String requestURL) http_body of
                   Some err \<Rightarrow> Inl err
                 | None \<Rightarrow>
                     Inr (fold Header_Add (sendRequest_headers h)
                            \<lparr>Request_Method = ''POST'', Request_URL = URL_String requestURL,
                             Request_Body = http_body, Request_Header = Map.empty\<rparr>)))
      else (case http_NewRequest_err e ''GET'' (URL_String requestURL) '''' of
              Some err \<Rightarrow> Inl err
            | None \<Rightarrow>
                Inr (fold Header_Add (sendRequest_headers h)
                       \<lparr>Request_Method = ''GET'', Request_URL = URL_String requestURL,
                        Request_Body = '''', Request_Header = Map.empty\<rparr>)))"

definition response_error :: "env \<Rightarrow> URL \<Rightarrow> Response \<Rightarrow> error option" where
  "response_error e requestURL resp =
     (case Response_ReadErr resp of
        Some err \<Rightarrow> Some err
      | None \<Rightarrow>
          if StatusCode resp \<noteq> http_StatusOK
          then Some (status_error e (URL_String requestURL) (StatusCode resp))
          else None)"

section \<open>Properties\<close>

subsection \<open>flatten\<close>

lemma flatten_total_aux:
  "(no_int (VMap item) \<longrightarrow> (\<exists>out. flatten item fs idp = Inr out))"
  "(no_int (VMap item2) \<longrightarrow> (\<exists>out. flatten_range item2 fs2 idp2 = Inr out))"
proof (induction item fs idp and item2 fs2 idp2 rule: flatten_flatten_range.induct)
  case (1 item fs idp)
  then show ?case by simp
next
  case (2 fs idp)
  then show ?case by simp
next
  case (3 k i rest fs idp)
  show ?case
  proof (cases i)
    case (VMap m)
    show ?thesis
    proof
      assume ni: "no_int (VMap ((k, i) # rest))"
      with VMap have "no_int (VMap m)" and nr: "no_int (VMap rest)" by auto
      with 3(2) VMap obtain b where b: "flatten m fs (idp @ k) = Inr b" by blast
      from 3(3)[OF VMap b] nr obtain out where "flatten_range rest b idp = Inr out" by blast
      with VMap b show "\<exists>out. flatten_range ((k, i) # rest) fs idp = Inr out" by simp
    qed
  qed (use 3 in \<open>simp_all add: fun_upd_def\<close>)
qed

lemma value_at_Cons_other:
  "k0 \<noteq> k \<Longrightarrow> value_at ((k, i) # rest) (k0 # p) = value_at rest (k0 # p)"
  by (cases p) auto

lemma value_at_Cons_map:
  "p \<noteq> [] \<Longrightarrow> value_at ((k, VMap m) # rest) (k # p) = value_at m p"
  by (cases p) auto

lemma value_at_key_in:
  "value_at rest (k0 # p) = Some v \<Longrightarrow> k0 \<in> fst ` set rest"
  by (cases p) (auto split: option.splits val.splits dest: map_of_SomeD intro: rev_image_eqI)

lemma value_at_Cons_distinct:
  assumes "k \<notin> fst ` set rest" "value_at rest (k0 # p) = Some v"
  shows "value_at ((k, i) # rest) (k0 # p) = Some v"
  using assms value_at_key_in[OF assms(2)] value_at_Cons_other[of k0 k i rest p] by auto


lemma stored_from_Cons:
  "k \<notin> fst ` set rest \<Longrightarrow> stored_from rest idp k' v \<Longrightarrow> stored_from ((k, i) # rest) idp k' v"
  unfolding stored_from_def using value_at_Cons_distinct by blast

lemma stored_from_here:
  "stored_from ((k, VFloat64 f) # rest) idp (idp @ k) (VFloat64 f)"
  unfolding stored_from_def by (rule exI[of _ k], rule exI[of _ "[]"]) simp

lemma stored_from_nested:
  assumes "p \<noteq> []" "value_at m p = Some v" "is_float64 v"
  shows "stored_from ((k, VMap m) # rest) idp (key_of (idp @ k) p) v"
  unfolding stored_from_def using assms value_at_Cons_map[of p k m rest] by auto

lemma flatten_sound_aux:
  "(\<forall>out k' v. distinct_keys (VMap item) \<longrightarrow> flatten item fs idp = Inr out \<longrightarrow> out k' = Some v
      \<longrightarrow> fs k' = Some v \<or>
          (\<exists>p. p \<noteq> [] \<and> value_at item p = Some v \<and> is_float64 v \<and> k' = key_of idp p))"
  "(\<forall>out k' v. distinct_keys (VMap item2) \<longrightarrow> flatten_range item2 fs2 idp2 = Inr out \<longrightarrow> out k' = Some v
      \<longrightarrow> fs2 k' = Some v \<or> stored_from item2 idp2 k' v)"
proof (induction item fs idp and item2 fs2 idp2 rule: flatten_flatten_range.induct)
  case (1 item fs idp)
  show ?case
  proof (intro allI impI)
    fix out k' v
    assume a: "distinct_keys (VMap item)" "flatten item fs idp = Inr out" "out k' = Some v"
    with 1 have "fs k' = Some v \<or> stored_from item (if idp \<noteq> [] then idp @ ''_'' else idp) k' v"
      by simp
    then show "fs k' = Some v \<or>
          (\<exists>p. p \<noteq> [] \<and> value_at item p = Some v \<and> is_float64 v \<and> k' = key_of idp p)"
    proof
      assume "stored_from item (if idp \<noteq> [] then idp @ ''_'' else idp) k' v"
      then obtain k0 p where "value_at item (k0 # p) = Some v" "is_float64 v"
        "k' = key_of idp (k0 # p)" unfolding stored_from_def by auto
      then show ?thesis by blast
    qed simp
  qed
next
  case (2 fs idp)
  then show ?case by simp
next
  case (3 k i rest fs idp)
  show ?case
  proof (intro allI impI)
    fix out k' v
    assume d: "distinct_keys (VMap ((k, i) # rest))"
      and fl: "flatten_range ((k, i) # rest) fs idp = Inr out"
      and o: "out k' = Some v"
    from d have dr: "distinct_keys (VMap rest)" and kn: "k \<notin> fst ` set rest" by auto
    show "fs k' = Some v \<or> stored_from ((k, i) # rest) idp k' v"
    proof (cases i)
      case (VInt n)
      with fl show ?thesis by simp
    next
      case (VFloat64 f)
      with fl have "flatten_range rest (fs(idp @ k \<mapsto> VFloat64 f)) idp = Inr out" by simp
      with 3(1)[OF VFloat64] dr o
      have "(fs(idp @ k \<mapsto> VFloat64 f)) k' = Some v \<or> stored_from rest idp k' v" by blast
      then show ?thesis
        using stored_from_Cons[OF kn] stored_from_here[of k f rest idp] VFloat64
        by (auto split: if_splits)
    next
      case (VMap m)
      with fl obtain b where b: "flatten m fs (idp @ k) = Inr b"
        and r: "flatten_range rest b idp = Inr out"
        by (auto split: sum.splits)
      from d VMap have dm: "distinct_keys (VMap m)" by auto
      from 3(3)[OF VMap b] dr r o have "b k' = Some v \<or> stored_from rest idp k' v" by blast
      then show ?thesis
      proof
        assume "b k' = Some v"
        with 3(2)[OF VMap] dm b
        have "fs k' = Some v \<or>
          (\<exists>p. p \<noteq> [] \<and> value_at m p = Some v \<and> is_float64 v \<and> k' = key_of (idp @ k) p)"
          by blast
        then show ?thesis using stored_from_nested[of _ m v k rest idp] VMap by auto
      next
        assume "stored_from rest idp k' v"
        then show ?thesis using stored_from_Cons[OF kn] by blast
      qed
    next
      case (VString s)
      with fl 3(4)[OF VString] dr o have "fs k' = Some v \<or> stored_from rest idp k' v" by simp
      then show ?thesis using stored_from_Cons[OF kn] by blast
    next
      case (VBool b)
      with fl 3(5)[OF VBool] dr o have "fs k' = Some v \<or> stored_from rest idp k' v" by simp
      then show ?thesis using stored_from_Cons[OF kn] by blast
    next
      case (VSlice l)
      with fl 3(6)[OF VSlice] dr o have "fs k' = Some v \<or> stored_from rest idp k' v" by simp
      then show ?thesis using stored_from_Cons[OF kn] by blast
    next
      case VNil
      with fl 3(7)[OF VNil] dr o have "fs k' = Some v \<or> stored_from rest idp k' v" by simp
      then show ?thesis using stored_from_Cons[OF kn] by blast
    qed
  qed
qed


lemma value_at_Nil [simp]: "value_at [] p = None"
proof (cases p)
  case (Cons k q)
  then show ?thesis by (cases q) auto
qed simp

lemma value_at_Cons_cases:
  assumes "value_at ((k, i) # rest) (k0 # p) = Some v"
  shows "(k0 = k \<and> p = [] \<and> v = i) \<or> (k0 = k \<and> p \<noteq> [] \<and> (\<exists>m. i = VMap m \<and> value_at m p = Some v))
         \<or> (k0 \<noteq> k \<and> value_at rest (k0 # p) = Some v)"
  using assms by (cases p) (auto split: if_splits option.splits val.splits)

lemma flatten_complete_aux:
  "(\<forall>out. flatten item fs idp = Inr out \<longrightarrow>
      (\<forall>k'. fs k' \<noteq> None \<longrightarrow> out k' \<noteq> None) \<and>
      (\<forall>p f. value_at item p = Some (VFloat64 f) \<longrightarrow> out (key_of idp p) \<noteq> None))"
  "(\<forall>out. flatten_range item2 fs2 idp2 = Inr out \<longrightarrow>
      (\<forall>k'. fs2 k' \<noteq> None \<longrightarrow> out k' \<noteq> None) \<and>
      (\<forall>k0 p f. value_at item2 (k0 # p) = Some (VFloat64 f) \<longrightarrow> out (key_of (idp2 @ k0) p) \<noteq> None))"
proof (induction item fs idp and item2 fs2 idp2 rule: flatten_flatten_range.induct)
  case (1 item fs idp)
  show ?case
  proof (intro allI impI conjI)
    fix out k' assume "flatten item fs idp = Inr out" "fs k' \<noteq> None"
    with 1 show "out k' \<noteq> None" by simp
  next
    fix out p f assume a: "flatten item fs idp = Inr out" "value_at item p = Some (VFloat64 f)"
    then obtain k0 q where p: "p = k0 # q" by (cases p) auto
    with a 1 show "out (key_of idp p) \<noteq> None" by simp
  qed
next
  case (2 fs idp)
  then show ?case by simp
next
  case (3 k i rest fs idp)
  show ?case
  proof (intro allI impI)
    fix out
    assume fl: "flatten_range ((k, i) # rest) fs idp = Inr out"
    have main: "\<exists>b. flatten_range rest b idp = Inr out \<and> (\<forall>k'. fs k' \<noteq> None \<longrightarrow> b k' \<noteq> None)
        \<and> (\<forall>k'. b k' \<noteq> None \<longrightarrow> out k' \<noteq> None)
        \<and> (\<forall>k0 p f. value_at rest (k0 # p) = Some (VFloat64 f) \<longrightarrow> out (key_of (idp @ k0) p) \<noteq> None)
        \<and> (\<forall>f. i = VFloat64 f \<longrightarrow> b (idp @ k) \<noteq> None)
        \<and> (\<forall>m p f. i = VMap m \<longrightarrow> value_at m p = Some (VFloat64 f) \<longrightarrow> b (key_of (idp @ k) p) \<noteq> None)"
    proof (cases i)
      case (VInt n)
      with fl show ?thesis by simp
    next
      case (VFloat64 f)
      with fl have r: "flatten_range rest (fs(idp @ k \<mapsto> VFloat64 f)) idp = Inr out" by simp
      from 3(1)[OF VFloat64] r
      have ih: "(\<forall>k'. (fs(idp @ k \<mapsto> VFloat64 f)) k' \<noteq> None \<longrightarrow> out k' \<noteq> None) \<and>
        (\<forall>k0 p f. value_at rest (k0 # p) = Some (VFloat64 f) \<longrightarrow> out (key_of (idp @ k0) p) \<noteq> None)"
        by blast
      show ?thesis
        by (rule exI[of _ "fs(idp @ k \<mapsto> VFloat64 f)"]) (use ih r VFloat64 in auto)
    next
      case (VMap m)
      with fl obtain b where b: "flatten m fs (idp @ k) = Inr b"
        and r: "flatten_range rest b idp = Inr out"
        by (auto split: sum.splits)
      show ?thesis
        by (rule exI[of _ b]) (use 3(2)[OF VMap] 3(3)[OF VMap b] b r VMap in auto)
    next
      case (VString s)
      with fl have r: "flatten_range rest fs idp = Inr out" by simp
      show ?thesis by (rule exI[of _ fs]) (use 3(4)[OF VString] r VString in auto)
    next
      case (VBool s)
      with fl have r: "flatten_range rest fs idp = Inr out" by simp
      show ?thesis by (rule exI[of _ fs]) (use 3(5)[OF VBool] r VBool in auto)
    next
      case (VSlice s)
      with fl have r: "flatten_range rest fs idp = Inr out" by simp
      show ?thesis by (rule exI[of _ fs]) (use 3(6)[OF VSlice] r VSlice in auto)
    next
      case VNil
      with fl have r: "flatten_range rest fs idp = Inr out" by simp
      show ?thesis by (rule exI[of _ fs]) (use 3(7)[OF VNil] r VNil in auto)
    qed
    then obtain b :: "string \<rightharpoonup> val" where b: "\<forall>k'. fs k' \<noteq> None \<longrightarrow> b k' \<noteq> None"
        "\<forall>k'. b k' \<noteq> None \<longrightarrow> out k' \<noteq> None"
        "\<forall>k0 p f. value_at rest (k0 # p) = Some (VFloat64 f) \<longrightarrow> out (key_of (idp @ k0) p) \<noteq> None"
        "\<forall>f. i = VFloat64 f \<longrightarrow> b (idp @ k) \<noteq> None"
        "\<forall>m p f. i = VMap m \<longrightarrow> value_at m p = Some (VFloat64 f) \<longrightarrow> b (key_of (idp @ k) p) \<noteq> None"
      by blast
    show "(\<forall>k'. fs k' \<noteq> None \<longrightarrow> out k' \<noteq> None) \<and>
      (\<forall>k0 p f. value_at ((k, i) # rest) (k0 # p) = Some (VFloat64 f) \<longrightarrow> out (key_of (idp @ k0) p) \<noteq> None)"
    proof (intro conjI allI impI)
      fix k' assume "fs k' \<noteq> None" with b(1,2) show "out k' \<noteq> None" by blast
    next
      fix k0 p f assume v: "value_at ((k, i) # rest) (k0 # p) = Some (VFloat64 f)"
      from value_at_Cons_cases[OF v] show "out (key_of (idp @ k0) p) \<noteq> None"
      proof (elim disjE conjE exE)
        assume "k0 = k" "p = []" "VFloat64 f = i"
        with b(2,4) show ?thesis by auto
      next
        fix m assume "k0 = k" "p \<noteq> []" "i = VMap m" "value_at m p = Some (VFloat64 f)"
        with b(2,5) show ?thesis by blast
      next
        assume "k0 \<noteq> k" "value_at rest (k0 # p) = Some (VFloat64 f)"
        with b(3) show ?thesis by blast
      qed
    qed
  qed
qed

lemma key_of_nonempty:
  "idp \<noteq> [] \<Longrightarrow> key_of idp p = idp @ concat (map (\<lambda>k. ''_'' @ k) p)"
  by (induction p arbitrary: idp) auto

lemma strings_Join_Cons:
  "strings_Join (k # p) sep = k @ concat (map (\<lambda>x. sep @ x) p)"
  by (induction p arbitrary: k) auto

lemma key_of_underscore_join:
  assumes "p \<noteq> []" "hd p \<noteq> []"
  shows "key_of [] p = strings_Join p ''_''"
proof -
  from assms obtain k q where p: "p = k # q" "k \<noteq> []" by (cases p) auto
  then show ?thesis using key_of_nonempty[of k q] strings_Join_Cons[of k q "''_''"] by simp
qed

lemma flatten_total:
  "no_int (VMap item) \<Longrightarrow> \<exists>out. flatten item fs idp = Inr out"
  using flatten_total_aux(1) by blast

lemma flatten_sound:
  assumes "distinct_keys (VMap item)" "flatten item Map.empty idp = Inr out" "out k = Some v"
  shows "is_float64 v \<and> (\<exists>p. value_at item p = Some v \<and> key_of idp p = k)"
  using flatten_sound_aux(1)[of item Map.empty idp] assms by fastforce

lemma flatten_complete:
  assumes "flatten item fs idp = Inr out" "value_at item p = Some (VFloat64 f)"
  shows "out (key_of idp p) \<noteq> None"
  using flatten_complete_aux(1)[of item fs idp] assms by blast

lemma flatten_range_flat:
  assumes "distinct (map fst item)" "list_all (\<lambda>kv. is_float64 (snd kv)) item"
  shows "flatten_range item fs '''' = Inr (fs ++ map_of item)"
  using assms
proof (induction item arbitrary: fs)
  case Nil
  then show ?case by simp
next
  case (Cons kv item)
  obtain k v where kv: "kv = (k, v)" by (cases kv)
  with Cons.prems obtain f where v: "v = VFloat64 f" by (cases v) auto
  from Cons.prems kv have k: "k \<notin> dom (map_of item)" by (simp add: dom_map_of_conv_image_fst)
  have ih: "flatten_range item (fs(k \<mapsto> VFloat64 f)) [] = Inr (fs(k \<mapsto> VFloat64 f) ++ map_of item)"
    using Cons.prems by (intro Cons.IH) auto
  have s1: "flatten_range (kv # item) fs [] = flatten_range item (fs(k \<mapsto> VFloat64 f)) []"
    using kv v by simp
  have eq: "fs(k \<mapsto> VFloat64 f) ++ map_of item = fs ++ map_of (kv # item)"
    using k kv v by (simp add: map_add_upd_left)
  show ?case by (simp only: s1 ih eq)
qed

lemma flatten_leaves_paths:
  assumes "distinct_keys (VMap item)" and "no_int (VMap item)"
  shows "\<exists>out. flatten item Map.empty '''' = Inr out \<and>
     (\<forall>k v. out k = Some v \<longrightarrow>
        is_float64 v \<and> (\<exists>p. value_at item p = Some v \<and> key_of '''' p = k)) \<and>
     (\<forall>p f. value_at item p = Some (VFloat64 f) \<longrightarrow>
        (\<exists>g. out (key_of '''' p) = Some (VFloat64 g)) \<and>
        ((\<forall>q g. value_at item q = Some (VFloat64 g) \<and> key_of '''' q = key_of '''' p \<longrightarrow> q = p)
           \<longrightarrow> out (key_of '''' p) = Some (VFloat64 f))) \<and>
     (\<forall>p. p \<noteq> [] \<and> hd p \<noteq> '''' \<longrightarrow> key_of '''' p = strings_Join p ''_'')"
proof -
  from flatten_total[OF assms(2)] obtain out where out: "flatten item Map.empty '''' = Inr out"
    by blast
  have snd: "\<And>k v. out k = Some v \<Longrightarrow>
        is_float64 v \<and> (\<exists>p. value_at item p = Some v \<and> key_of '''' p = k)"
    using flatten_sound[OF assms(1) out] by blast
  have cpl: "\<And>p f. value_at item p = Some (VFloat64 f) \<Longrightarrow> \<exists>g. out (key_of '''' p) = Some (VFloat64 g)"
  proof -
    fix p f assume "value_at item p = Some (VFloat64 f)"
    from flatten_complete[OF out this] obtain v where v: "out (key_of '''' p) = Some v" by blast
    with snd[OF v] show "\<exists>g. out (key_of '''' p) = Some (VFloat64 g)" by (cases v) auto
  qed
  have uniq: "\<And>p f. value_at item p = Some (VFloat64 f) \<Longrightarrow>
        (\<forall>q g. value_at item q = Some (VFloat64 g) \<and> key_of '''' q = key_of '''' p \<longrightarrow> q = p)
           \<Longrightarrow> out (key_of '''' p) = Some (VFloat64 f)"
  proof -
    fix p f assume vp: "value_at item p = Some (VFloat64 f)"
      and u: "\<forall>q g. value_at item q = Some (VFloat64 g) \<and> key_of '''' q = key_of '''' p \<longrightarrow> q = p"
    from cpl[OF vp] obtain g where g: "out (key_of '''' p) = Some (VFloat64 g)" by blast
    from snd[OF g] obtain q where q: "value_at item q = Some (VFloat64 g)" "key_of '''' q = key_of '''' p"
      by blast
    with u have "q = p" by blast
    with q vp g show "out (key_of '''' p) = Some (VFloat64 f)" by simp
  qed
  show ?thesis
    by (rule exI[of _ out]) (use out snd cpl uniq key_of_underscore_join in blast)
qed

lemma assign_all_append: "assign_all (ws @ ws') fs = assign_all ws' (assign_all ws fs)"
  by (simp add: assign_all_def)

lemma assign_all_simps [simp]:
  "assign_all [] fs = fs"
  "assign_all ((k, v) # ws) fs = assign_all ws (fs(k \<mapsto> v))"
  by (simp_all add: assign_all_def)

lemma flatten_as_writes_aux:
  "(no_int (VMap item) \<longrightarrow> flatten item fs idp = Inr (assign_all (flatten_writes item idp) fs))"
  "(no_int (VMap item2) \<longrightarrow>
      flatten_range item2 fs2 idp2 = Inr (assign_all (flatten_range_writes item2 idp2) fs2))"
proof (induction item fs idp and item2 fs2 idp2 rule: flatten_flatten_range.induct)
  case (1 item fs idp)
  then show ?case by simp
next
  case (2 fs idp)
  then show ?case by simp
next
  case (3 k i rest fs idp)
  show ?case
  proof
    assume ni: "no_int (VMap ((k, i) # rest))"
    then have nr: "no_int (VMap rest)" by simp
    show "flatten_range ((k, i) # rest) fs idp =
            Inr (assign_all (flatten_range_writes ((k, i) # rest) idp) fs)"
    proof (cases i)
      case (VInt n)
      with ni show ?thesis by simp
    next
      case (VFloat64 f)
      from 3(1)[OF VFloat64] nr
      have "flatten_range rest (fs(idp @ k \<mapsto> VFloat64 f)) idp =
              Inr (assign_all (flatten_range_writes rest idp) (fs(idp @ k \<mapsto> VFloat64 f)))"
        by blast
      with VFloat64 show ?thesis by simp
    next
      case (VMap m)
      with ni have nm: "no_int (VMap m)" by simp
      from 3(2)[OF VMap] nm
      have b: "flatten m fs (idp @ k) = Inr (assign_all (flatten_writes m (idp @ k)) fs)"
        by blast
      from 3(3)[OF VMap b] nr
      have "flatten_range rest (assign_all (flatten_writes m (idp @ k)) fs) idp =
              Inr (assign_all (flatten_range_writes rest idp)
                     (assign_all (flatten_writes m (idp @ k)) fs))"
        by blast
      with VMap b show ?thesis by (simp add: assign_all_append del: flatten.simps flatten_writes.simps)
    next
      case (VString s)
      with 3(4)[OF VString] nr show ?thesis by simp
    next
      case (VBool s)
      with 3(5)[OF VBool] nr show ?thesis by simp
    next
      case (VSlice s)
      with 3(6)[OF VSlice] nr show ?thesis by simp
    next
      case VNil
      with 3(7)[OF VNil] nr show ?thesis by simp
    qed
  qed
qed

lemma flatten_as_writes:
  "no_int (VMap item) \<Longrightarrow> flatten item fs idp = Inr (assign_all (flatten_writes item idp) fs)"
  using flatten_as_writes_aux(1) by blast

lemma assign_all_map_of: "assign_all ws fs = fs ++ map_of (rev ws)"
proof (induction ws arbitrary: fs)
  case Nil
  then show ?case by simp
next
  case (Cons kv ws)
  obtain k v where kv: "kv = (k, v)" by (cases kv)
  have e: "fs(k \<mapsto> v) ++ map_of (rev ws) = fs ++ map_of (rev ((k, v) # ws))"
    by (simp add: map_add_assoc[symmetric])
  have s: "assign_all ((k, v) # ws) fs = assign_all ws (fs(k \<mapsto> v))" by simp
  have i: "assign_all ws (fs(k \<mapsto> v)) = fs(k \<mapsto> v) ++ map_of (rev ws)" by (rule Cons.IH)
  show ?case unfolding kv by (simp only: s i e)
qed

lemma assign_all_last:
  assumes "ws = ws1 @ (k, v) # ws2" "k \<notin> fst ` set ws2"
  shows "assign_all ws fs k = Some v"
proof -
  from assms(2) have "map_of (rev ws2) k = None" by (simp add: map_of_eq_None_iff)
  with assms(1) show ?thesis by (simp add: assign_all_map_of map_add_def)
qed

lemma assign_all_in:
  assumes "assign_all ws fs k = Some v"
  shows "fs k = Some v \<or> (k, v) \<in> set ws"
  using assms by (auto simp: assign_all_map_of dest: map_of_SomeD)

lemma writes_sound_aux:
  "(distinct_keys (VMap item) \<longrightarrow> (k', v) \<in> set (flatten_writes item idp) \<longrightarrow>
      (\<exists>p. p \<noteq> [] \<and> value_at item p = Some v \<and> is_float64 v \<and> k' = key_of idp p))"
  "(distinct_keys (VMap item2) \<longrightarrow> (k', v) \<in> set (flatten_range_writes item2 idp2) \<longrightarrow>
      stored_from item2 idp2 k' v)"
proof (induction item idp and item2 idp2 rule: flatten_writes_flatten_range_writes.induct)
  case (1 item idp)
  show ?case
  proof (intro impI)
    assume "distinct_keys (VMap item)" "(k', v) \<in> set (flatten_writes item idp)"
    with 1 have "stored_from item (if idp \<noteq> [] then idp @ ''_'' else idp) k' v" by simp
    then obtain k0 p where "value_at item (k0 # p) = Some v" "is_float64 v"
      "k' = key_of idp (k0 # p)" unfolding stored_from_def by auto
    then show "\<exists>p. p \<noteq> [] \<and> value_at item p = Some v \<and> is_float64 v \<and> k' = key_of idp p"
      by blast
  qed
next
  case (2 idp)
  then show ?case by simp
next
  case (3 k i rest idp)
  show ?case
  proof (intro impI)
    assume d: "distinct_keys (VMap ((k, i) # rest))"
      and w: "(k', v) \<in> set (flatten_range_writes ((k, i) # rest) idp)"
    from d have dr: "distinct_keys (VMap rest)" and kn: "k \<notin> fst ` set rest" by auto
    from w consider
      (here) "(k', v) \<in> set (case i of VFloat64 f \<Rightarrow> [(idp @ k, VFloat64 f)]
                                | VMap m \<Rightarrow> flatten_writes m (idp @ k) | _ \<Rightarrow> [])"
      | (rest) "(k', v) \<in> set (flatten_range_writes rest idp)"
      by auto
    then show "stored_from ((k, i) # rest) idp k' v"
    proof cases
      case rest
      with 3(2) dr have "stored_from rest idp k' v" by blast
      then show ?thesis by (rule stored_from_Cons[OF kn])
    next
      case here
      show ?thesis
      proof (cases i)
        case (VFloat64 f)
        with here show ?thesis using stored_from_here[of k f rest idp] by simp
      next
        case (VMap m)
        with d have dm: "distinct_keys (VMap m)" by auto
        from here VMap have "(k', v) \<in> set (flatten_writes m (idp @ k))" by simp
        with 3(1)[OF VMap] dm obtain p where
          "p \<noteq> []" "value_at m p = Some v" "is_float64 v" "k' = key_of (idp @ k) p" by blast
        then show ?thesis using stored_from_nested[of p m v k rest idp] VMap by simp
      qed (use here in simp_all)
    qed
  qed
qed

lemma writes_complete_aux:
  "(\<forall>p f. value_at item p = Some (VFloat64 f) \<longrightarrow>
      (key_of idp p, VFloat64 f) \<in> set (flatten_writes item idp))"
  "(\<forall>k0 p f. value_at item2 (k0 # p) = Some (VFloat64 f) \<longrightarrow>
      (key_of (idp2 @ k0) p, VFloat64 f) \<in> set (flatten_range_writes item2 idp2))"
proof (induction item idp and item2 idp2 rule: flatten_writes_flatten_range_writes.induct)
  case (1 item idp)
  show ?case
  proof (intro allI impI)
    fix p f assume a: "value_at item p = Some (VFloat64 f)"
    then obtain k0 q where p: "p = k0 # q" by (cases p) auto
    with a 1 show "(key_of idp p, VFloat64 f) \<in> set (flatten_writes item idp)" by simp
  qed
next
  case (2 idp)
  then show ?case by simp
next
  case (3 k i rest idp)
  show ?case
  proof (intro allI impI)
    fix k0 p f assume v: "value_at ((k, i) # rest) (k0 # p) = Some (VFloat64 f)"
    from value_at_Cons_cases[OF v]
    show "(key_of (idp @ k0) p, VFloat64 f) \<in> set (flatten_range_writes ((k, i) # rest) idp)"
    proof (elim disjE conjE exE)
      assume "k0 = k" "p = []" "VFloat64 f = i"
      then show ?thesis by auto
    next
      fix m assume a: "k0 = k" "p \<noteq> []" "i = VMap m" "value_at m p = Some (VFloat64 f)"
      with 3(1)[OF a(3)] have "(key_of (idp @ k) p, VFloat64 f) \<in> set (flatten_writes m (idp @ k))"
        by blast
      with a show ?thesis by (simp del: flatten_writes.simps)
    next
      assume "k0 \<noteq> k" "value_at rest (k0 # p) = Some (VFloat64 f)"
      with 3(2) show ?thesis by simp
    qed
  qed
qed

lemma flatten_writes_leaves:
  assumes "distinct_keys (VMap item)"
  shows "(k, v) \<in> set (flatten_writes item idp) \<longleftrightarrow>
           (\<exists>p f. v = VFloat64 f \<and> value_at item p = Some v \<and> key_of idp p = k)"
proof
  assume "(k, v) \<in> set (flatten_writes item idp)"
  with writes_sound_aux(1)[of item k v idp] assms obtain p where
    "value_at item p = Some v" "is_float64 v" "k = key_of idp p" by blast
  then show "\<exists>p f. v = VFloat64 f \<and> value_at item p = Some v \<and> key_of idp p = k"
    by (cases v) auto
next
  assume "\<exists>p f. v = VFloat64 f \<and> value_at item p = Some v \<and> key_of idp p = k"
  then show "(k, v) \<in> set (flatten_writes item idp)"
    using writes_complete_aux(1)[of item idp] by blast
qed

text \<open>
  Claim C1, as amended. Let \<open>item\<close> be a nested mapping with one entry per key at
  every level and no Go \<open>int\<close> in it. Then \<open>flatten\<close>, called with an empty output
  mapping and an empty prefix, returns normally, and in its output:
  every entry holds a \<open>float64\<close> that the input has at a path whose flattened key
  \<open>key_of '''' p\<close> is the entry's key, so nothing that is not a number is stored;
  every \<open>float64\<close> of the input has an entry under the flattened key of its path, and
  that entry holds this very value when no other \<open>float64\<close> has a path with the same
  flattened key;
  the flattened key of a path is its keys joined with underscores whenever the first key
  of the path is not empty;
  the output is the result of executing the assignments \<open>flatten_writes item ''''\<close> in
  order, these assignments are exactly the \<open>float64\<close> values of the input, each under
  the flattened key of its path, and under every key the output holds the value of the
  last assignment to that key: on a collision the last write wins.
\<close>

theorem flatten_numeric_leaves:
  assumes "distinct_keys (VMap item)" and "no_int (VMap item)"
  shows "\<exists>out. flatten item Map.empty '''' = Inr out \<and>
     (\<forall>k v. out k = Some v \<longrightarrow>
        is_float64 v \<and> (\<exists>p. value_at item p = Some v \<and> key_of '''' p = k)) \<and>
     (\<forall>p f. value_at item p = Some (VFloat64 f) \<longrightarrow>
        (\<exists>g. out (key_of '''' p) = Some (VFloat64 g)) \<and>
        ((\<forall>q g. value_at item q = Some (VFloat64 g) \<and> key_of '''' q = key_of '''' p \<longrightarrow> q = p)
           \<longrightarrow> out (key_of '''' p) = Some (VFloat64 f))) \<and>
     (\<forall>p. p \<noteq> [] \<and> hd p \<noteq> '''' \<longrightarrow> key_of '''' p = strings_Join p ''_'') \<and>
     out = assign_all (flatten_writes item '''') Map.empty \<and>
     (\<forall>k v. (k, v) \<in> set (flatten_writes item '''') \<longleftrightarrow>
        (\<exists>p f. v = VFloat64 f \<and> value_at item p = Some v \<and> key_of '''' p = k)) \<and>
     (\<forall>ws1 k v ws2. flatten_writes item '''' = ws1 @ (k, v) # ws2 \<and> k \<notin> fst ` set ws2 \<longrightarrow>
        out k = Some v)"
proof -
  let ?out = "assign_all (flatten_writes item '''') Map.empty"
  have fl: "flatten item Map.empty '''' = Inr ?out" by (rule flatten_as_writes[OF assms(2)])
  from flatten_leaves_paths[OF assms] obtain out where
    o: "flatten item Map.empty '''' = Inr out" and
    c: "(\<forall>k v. out k = Some v \<longrightarrow>
        is_float64 v \<and> (\<exists>p. value_at item p = Some v \<and> key_of '''' p = k)) \<and>
     (\<forall>p f. value_at item p = Some (VFloat64 f) \<longrightarrow>
        (\<exists>g. out (key_of '''' p) = Some (VFloat64 g)) \<and>
        ((\<forall>q g. value_at item q = Some (VFloat64 g) \<and> key_of '''' q = key_of '''' p \<longrightarrow> q = p)
           \<longrightarrow> out (key_of '''' p) = Some (VFloat64 f))) \<and>
     (\<forall>p. p \<noteq> [] \<and> hd p \<noteq> '''' \<longrightarrow> key_of '''' p = strings_Join p ''_'')"
    by (elim exE conjE) (rule that, assumption, intro conjI, assumption+)
  from o fl have eq: "out = ?out" by (simp only: sum.inject)
  have old:
    "(\<forall>k v. ?out k = Some v \<longrightarrow>
        is_float64 v \<and> (\<exists>p. value_at item p = Some v \<and> key_of '''' p = k)) \<and>
     (\<forall>p f. value_at item p = Some (VFloat64 f) \<longrightarrow>
        (\<exists>g. ?out (key_of '''' p) = Some (VFloat64 g)) \<and>
        ((\<forall>q g. value_at item q = Some (VFloat64 g) \<and> key_of '''' q = key_of '''' p \<longrightarrow> q = p)
           \<longrightarrow> ?out (key_of '''' p) = Some (VFloat64 f))) \<and>
     (\<forall>p. p \<noteq> [] \<and> hd p \<noteq> '''' \<longrightarrow> key_of '''' p = strings_Join p ''_'')"
    using c unfolding eq .
  have leaves: "\<forall>k v. (k, v) \<in> set (flatten_writes item '''') \<longleftrightarrow>
        (\<exists>p f. v = VFloat64 f \<and> value_at item p = Some v \<and> key_of '''' p = k)"
    using flatten_writes_leaves[OF assms(1), of _ _ "''''"] by blast
  have last: "\<forall>ws1 k v ws2. flatten_writes item '''' = ws1 @ (k, v) # ws2 \<and> k \<notin> fst ` set ws2 \<longrightarrow>
        ?out k = Some v"
    using assign_all_last by blast
  show ?thesis
    by (rule exI[of _ ?out], intro conjI)
       (rule fl, rule old[THEN conjunct1], rule old[THEN conjunct2, THEN conjunct1],
        rule old[THEN conjunct2, THEN conjunct2], rule refl, rule leaves, rule last)
qed

theorem flatten_numeric_leaves_witness:
  "distinct_keys (VMap ex_nested) \<and> no_int (VMap ex_nested) \<and>
   flatten ex_nested Map.empty '''' =
     Inr [''x'' \<mapsto> VFloat64 float64_1, ''y_z'' \<mapsto> VFloat64 float64_2_5] \<and>
   value_at ex_nested [''y'', ''z''] = Some (VFloat64 float64_2_5) \<and>
   key_of '''' [''y'', ''z''] = ''y_z'' \<and>
   strings_Join [''y'', ''z''] ''_'' = ''y_z'' \<and>
   distinct_keys (VMap ex_collision) \<and> no_int (VMap ex_collision) \<and>
   flatten_writes ex_collision '''' =
     [(''a_b'', VFloat64 float64_1), (''a_b'', VFloat64 float64_2)] \<and>
   flatten ex_collision Map.empty '''' = Inr [''a_b'' \<mapsto> VFloat64 float64_2]"
proof -
  have h1: "distinct_keys (VMap ex_nested)" "no_int (VMap ex_nested)"
    by (simp_all add: ex_nested_def)
  have h2: "distinct_keys (VMap ex_collision)" "no_int (VMap ex_collision)"
    by (simp_all add: ex_collision_def)
  have w: "flatten_writes ex_collision '''' =
     [(''a_b'', VFloat64 float64_1), (''a_b'', VFloat64 float64_2)]"
    by (simp add: ex_collision_def)
  have f1: "flatten ex_nested Map.empty '''' =
     Inr [''x'' \<mapsto> VFloat64 float64_1, ''y_z'' \<mapsto> VFloat64 float64_2_5]"
    by (simp add: ex_nested_def)
  have v: "value_at ex_nested [''y'', ''z''] = Some (VFloat64 float64_2_5)"
    by (simp add: ex_nested_def)
  from flatten_numeric_leaves[OF h2] obtain out where
    o: "flatten ex_collision Map.empty '''' = Inr out"
    and l: "\<forall>ws1 k v ws2. flatten_writes ex_collision '''' = ws1 @ (k, v) # ws2 \<and>
              k \<notin> fst ` set ws2 \<longrightarrow> out k = Some v"
    by (elim exE conjE) (rule that; assumption)
  from l[rule_format, of "[(''a_b'', VFloat64 float64_1)]" "''a_b''" "VFloat64 float64_2" "[]"] w
  have a: "out ''a_b'' = Some (VFloat64 float64_2)" by simp
  have c: "flatten ex_collision Map.empty '''' = Inr [''a_b'' \<mapsto> VFloat64 float64_2]"
    by (simp add: ex_collision_def)
  with o a have f2: "flatten ex_collision Map.empty '''' = Inr [''a_b'' \<mapsto> VFloat64 float64_2]"
    by simp
  from h1 h2 w f1 v f2 show ?thesis by simp
qed

text \<open>
  The claim as it was stated fails in two ways. In \<open>ex_collision\<close> the number 1.0 is
  at the path \<open>a\<close>, \<open>b\<close>, whose underscore-joined key is \<open>a_b\<close>, but the output
  holds 2.0 there, and 1.0 when the entries are visited in the other order: one of the
  two numbers is lost. In \<open>ex_empty_key\<close> the number at the
  path \<open>""\<close>, \<open>b\<close> is stored under \<open>b\<close>, not under the joined path \<open>_b\<close>.
\<close>

theorem flatten_numeric_leaves_counterexample:
  "distinct_keys (VMap ex_collision) \<and> no_int (VMap ex_collision) \<and>
   value_at ex_collision [''a'', ''b''] = Some (VFloat64 float64_1) \<and>
   strings_Join [''a'', ''b''] ''_'' = ''a_b'' \<and>
   flatten ex_collision Map.empty '''' = Inr [''a_b'' \<mapsto> VFloat64 float64_2] \<and>
   float64_2 \<noteq> float64_1 \<and>
   value_at (rev ex_collision) [''a_b''] = Some (VFloat64 float64_2) \<and>
   flatten (rev ex_collision) Map.empty '''' = Inr [''a_b'' \<mapsto> VFloat64 float64_1] \<and>
   distinct_keys (VMap ex_empty_key) \<and> no_int (VMap ex_empty_key) \<and>
   value_at ex_empty_key ['''', ''b''] = Some (VFloat64 float64_1) \<and>
   strings_Join ['''', ''b''] ''_'' = ''_b'' \<and>
   flatten ex_empty_key Map.empty '''' = Inr [''b'' \<mapsto> VFloat64 float64_1]"
  by (simp add: ex_collision_def ex_empty_key_def float64_1_def float64_2_def)

text \<open>
  The branch \<open>case int\<close> is not reached on a decoded mapping. Were \<open>flatten\<close> called
  on a mapping with a Go \<open>int\<close>, the type assertion of that branch would panic.
\<close>

lemma flatten_panic_kind:
  "flatten item fs idp \<noteq> Inl NilPointerDereference"
  "flatten_range item2 fs2 idp2 \<noteq> Inl NilPointerDereference"
proof (induction item fs idp and item2 fs2 idp2 rule: flatten_flatten_range.induct)
  case (3 k i rest fs idp)
  then show ?case by (cases i) (auto simp: fun_upd_def split: sum.splits)
qed simp_all

lemma panic_cases: "p = InterfaceConversion \<or> p = NilPointerDereference"
  by (cases p) auto

lemma flatten_range_int_panics:
  assumes "(k, VInt n) \<in> set item"
  shows "flatten_range item fs idp = Inl InterfaceConversion"
  using assms
proof (induction item arbitrary: fs)
  case Nil
  then show ?case by simp
next
  case (Cons kv item)
  obtain k' i where kv: "kv = (k', i)" by (cases kv)
  show ?case
  proof (cases "i = VInt n \<or> (\<exists>n'. i = VInt n')")
    case True
    with kv show ?thesis by auto
  next
    case False
    with Cons.prems kv have in_rest: "(k, VInt n) \<in> set item" by auto
    note ih = Cons.IH[OF in_rest]
    show ?thesis
    proof (cases i)
      case (VMap m)
      show ?thesis
      proof (cases "flatten m fs (idp @ k')")
        case (Inl p)
        with flatten_panic_kind(1)[of m fs "idp @ k'"] panic_cases[of p]
        have "flatten m fs (idp @ k') = Inl InterfaceConversion" by auto
        with kv VMap show ?thesis by simp
      next
        case (Inr fs')
        with kv VMap ih[of fs'] show ?thesis by simp
      qed
    qed (use kv ih False in simp_all)
  qed
qed

lemma flatten_int_always_panics:
  "(k, VInt n) \<in> set item \<Longrightarrow> flatten item fs idp = Inl InterfaceConversion"
  by (simp add: flatten_range_int_panics)







lemma flatten_int_panics:
  "flatten ex_int Map.empty '''' = Inl InterfaceConversion \<and>
   flatten ex_int Map.empty ''jvm'' = Inl InterfaceConversion"
  by (simp add: ex_int_def)



text \<open>
  Claim C7, as amended. For every mapping with one entry per key whose values are all
  \<open>float64\<close> numbers, \<open>flatten\<close>, called with an empty output mapping and an empty
  prefix, returns an output mapping equal to the input mapping.
\<close>

theorem flatten_flat_float_map:
  assumes "distinct (map fst item)" and "list_all (\<lambda>kv. is_float64 (snd kv)) item"
  shows "flatten item Map.empty '''' = Inr (map_of item)"
  using flatten_range_flat[OF assms, of Map.empty] by simp

theorem flatten_flat_float_map_witness:
  "distinct (map fst ex_flat) \<and> list_all (\<lambda>kv. is_float64 (snd kv)) ex_flat \<and>
   flatten ex_flat Map.empty '''' = Inr (map_of ex_flat) \<and>
   map_of ex_flat ''y'' = Some (VFloat64 float64_2_5)"
  using flatten_flat_float_map[of ex_flat] by (simp add: ex_flat_def)

text \<open>
  The claim as it was stated fails on a mapping without nested mappings that holds a
  string: the string is discarded, so the output is empty and differs from the input.
\<close>

theorem flatten_flat_float_map_counterexample:
  "\<not> is_map (VString ''x'') \<and>
   flatten ex_string Map.empty '''' = Inr Map.empty \<and>
   map_of ex_string ''s'' = Some (VString ''x'') \<and>
   (Map.empty :: fields) ''s'' = None"
  by (simp add: ex_string_def)

subsection \<open>sendRequest\<close>

lemma strings_Contains_iff:
  "strings_Contains s sub \<longleftrightarrow> (\<exists>p q. s = p @ sub @ q)"
proof (induction s)
  case Nil
  then show ?case by auto
next
  case (Cons c s)
  show ?case
  proof
    assume "strings_Contains (c # s) sub"
    then consider "take (length sub) (c # s) = sub" | "strings_Contains s sub" by auto
    then show "\<exists>p q. c # s = p @ sub @ q"
    proof cases
      case 1
      then have "c # s = [] @ sub @ drop (length sub) (c # s)"
        by (metis append_Nil append_take_drop_id)
      then show ?thesis by blast
    next
      case 2
      with Cons.IH obtain p q where "s = p @ sub @ q" by blast
      then have "c # s = (c # p) @ sub @ q" by simp
      then show ?thesis by blast
    qed
  next
    assume "\<exists>p q. c # s = p @ sub @ q"
    then obtain p q where pq: "c # s = p @ sub @ q" by blast
    show "strings_Contains (c # s) sub"
    proof (cases p)
      case Nil
      with pq have "take (length sub) (c # s) = sub" by simp
      then show ?thesis by simp
    next
      case (Cons a p')
      with pq have "s = p' @ sub @ q" by simp
      with Cons.IH have "strings_Contains s sub" by blast
      then show ?thesis by simp
    qed
  qed
qed

lemma strings_Contains_mid: "strings_Contains (p @ sub @ q) sub"
  using strings_Contains_iff by blast

lemma sendRequest_unfold:
  "sendRequest h e serverURL =
     (case url_Parse e serverURL of
        Inl err \<Rightarrow> ([], '''', float64_minus_1, Some (invalid_url_error serverURL))
      | Inr requestURL \<Rightarrow>
          (case built_request h e requestURL of
             Inl err \<Rightarrow> ([], '''', float64_minus_1, Some err)
           | Inr req \<Rightarrow>
               (case MakeRequest e req of
                  Inl err \<Rightarrow> ([req], '''', float64_minus_1, Some err)
                | Inr resp \<Rightarrow>
                    ([req], Response_Body resp, time_Since e req,
                     response_error e requestURL resp))))"
proof (cases "url_Parse e serverURL")
  case (Inl err)
  then show ?thesis by (simp add: sendRequest_def)
next
  case (Inr requestURL)
  show ?thesis
  proof (cases "strings_Contains (URL_String requestURL) ''multiple''")
    case True
    show ?thesis
    proof (cases "json_Marshal e \<lparr>Messagebody_Metrics = Metrics h\<rparr>")
      case (Inl err)
      with Inr True show ?thesis by (simp add: sendRequest_def built_request_def)
    next
      case body: (Inr http_body)
      show ?thesis
      proof (cases "http_NewRequest_err e ''POST'' (URL_String requestURL) http_body")
        case None
        with Inr True body show ?thesis
          by (simp add: sendRequest_def built_request_def http_NewRequest_def
                sendRequest_headers_def response_error_def Let_def
              split: sum.splits option.splits)
      next
        case (Some err)
        with Inr True body show ?thesis
          by (simp add: sendRequest_def built_request_def http_NewRequest_def)
      qed
    qed
  next
    case False
    show ?thesis
    proof (cases "http_NewRequest_err e ''GET'' (URL_String requestURL) ''''")
      case None
      with Inr False show ?thesis
        by (simp add: sendRequest_def built_request_def http_NewRequest_def
              sendRequest_headers_def response_error_def Let_def
            split: sum.splits option.splits)
    next
      case (Some err)
      with Inr False show ?thesis
        by (simp add: sendRequest_def built_request_def http_NewRequest_def)
    qed
  qed
qed

lemma Header_Add_fields [simp]:
  "Request_Method (Header_Add kv req) = Request_Method req"
  "Request_URL (Header_Add kv req) = Request_URL req"
  "Request_Body (Header_Add kv req) = Request_Body req"
  by (simp_all add: Header_Add_def)

lemma sendRequest_sent:
  "fst (sendRequest h e serverURL) =
     (case url_Parse e serverURL of
        Inl err \<Rightarrow> []
      | Inr requestURL \<Rightarrow>
          (case built_request h e requestURL of Inl err \<Rightarrow> [] | Inr req \<Rightarrow> [req]))"
  by (simp add: sendRequest_unfold split: sum.splits)

lemma built_request_shape:
  assumes "built_request h e requestURL = Inr req"
  shows "Request_URL req = URL_String requestURL \<and>
         (if strings_Contains (URL_String requestURL) ''multiple''
          then Request_Method req = ''POST'' \<and>
               json_Marshal e \<lparr>Messagebody_Metrics = Metrics h\<rparr> = Inr (Request_Body req)
          else Request_Method req = ''GET'' \<and> Request_Body req = '''')"
  using assms
  by (auto simp: built_request_def sendRequest_headers_def
           split: if_splits sum.splits option.splits)

lemma built_request_iff:
  "(\<exists>req. built_request h e requestURL = Inr req) \<longleftrightarrow>
     (if strings_Contains (URL_String requestURL) ''multiple''
      then (\<exists>b. json_Marshal e \<lparr>Messagebody_Metrics = Metrics h\<rparr> = Inr b \<and>
                http_NewRequest_err e ''POST'' (URL_String requestURL) b = None)
      else http_NewRequest_err e ''GET'' (URL_String requestURL) '''' = None)"
  by (auto simp: built_request_def split: sum.splits option.splits)

lemma built_request_Authorization:
  assumes "built_request h e requestURL = Inr req"
  shows "Request_Header req ''Authorization'' =
           Some [''Basic '' @ EncodeToString encodeURL (Username h @ '':'' @ Password h)]"
  using assms
  by (auto simp: built_request_def sendRequest_headers_def Header_Add_def
           split: if_splits sum.splits option.splits)

lemma sendRequest_Authorization:
  assumes "req \<in> set (fst (sendRequest h e serverURL))"
  shows "Request_Header req ''Authorization'' =
           Some [''Basic '' @ EncodeToString encodeURL (Username h @ '':'' @ Password h)]"
proof -
  from assms obtain requestURL where "built_request h e requestURL = Inr req"
    by (auto simp: sendRequest_sent split: sum.splits)
  then show ?thesis by (rule built_request_Authorization)
qed

lemma sendRequest_namespace_ignores_Metrics:
  assumes "url_Parse e serverURL = Inr requestURL"
    "\<not> strings_Contains (URL_String requestURL) ''multiple''"
  shows "sendRequest (h\<lparr>Metrics := ms\<rparr>) e serverURL = sendRequest h e serverURL"
  using assms by (simp add: sendRequest_def)

lemma json_Marshal_body:
  "json_Marshal e \<lparr>Messagebody_Metrics = ms\<rparr> =
     Inr (''{'' @ dquote @ ''metrics'' @ dquote @ '':''
          @ (case ms of
               None \<Rightarrow> ''null''
             | Some names \<Rightarrow> ''['' @ strings_Join (map (json_string e) names) '','' @ '']'')
          @ ''}'')"
  by (simp add: json_Marshal_def)

lemma json_string_cong:
  "json_escape e' = json_escape e \<Longrightarrow> json_string e' = json_string e"
  by (simp add: fun_eq_iff json_string_def)

lemma json_Marshal_cong:
  assumes "json_escape e' = json_escape e"
  shows "json_Marshal e' = json_Marshal e"
proof -
  have js: "json_string e' = json_string e" using assms by (rule json_string_cong)
  show ?thesis by (intro ext) (simp only: json_Marshal_def js)
qed

lemma json_string_plain:
  "list_all json_plain name \<Longrightarrow> json_string e name = dquote @ name @ dquote"
  by (simp add: json_string_def)

text \<open>
  Claim C4, as amended. For a server URL that \<open>url.Parse\<close> accepts, every request that
  \<open>sendRequest\<close> hands to the client is addressed to the parsed URL and is a POST
  exactly when the string of the parsed URL contains \<open>multiple\<close>, and otherwise a
  GET with an empty body. The body of the POST is the JSON object with the one member
  \<open>metrics\<close>, whose value is the array of the configured metric names when
  \<open>h.Metrics\<close> is a slice, empty or not, and \<open>null\<close> when it is nil; a name made of
  plain characters stands in the array between quotes, as it is. At most one request is
  sent, and one is sent whenever the request can be built. In the second case the
  configured metric list has no effect on what \<open>sendRequest\<close> does.
\<close>

theorem sendRequest_method_and_body:
  assumes "url_Parse e serverURL = Inr requestURL"
  shows "(\<forall>req \<in> set (fst (sendRequest h e serverURL)).
            Request_URL req = URL_String requestURL \<and>
            (if strings_Contains (URL_String requestURL) ''multiple''
             then Request_Method req = ''POST'' \<and>
                  Request_Body req =
                    ''{'' @ dquote @ ''metrics'' @ dquote @ '':''
                    @ (case Metrics h of
                         None \<Rightarrow> ''null''
                       | Some names \<Rightarrow>
                           ''['' @ strings_Join (map (json_string e) names) '','' @ '']'')
                    @ ''}''
             else Request_Method req = ''GET'' \<and> Request_Body req = '''')) \<and>
         (fst (sendRequest h e serverURL) \<noteq> [] \<longleftrightarrow>
            (if strings_Contains (URL_String requestURL) ''multiple''
             then (\<exists>b. json_Marshal e \<lparr>Messagebody_Metrics = Metrics h\<rparr> = Inr b \<and>
                       http_NewRequest_err e ''POST'' (URL_String requestURL) b = None)
             else http_NewRequest_err e ''GET'' (URL_String requestURL) '''' = None)) \<and>
         length (fst (sendRequest h e serverURL)) \<le> 1 \<and>
         (\<not> strings_Contains (URL_String requestURL) ''multiple'' \<longrightarrow>
            (\<forall>ms. sendRequest (h\<lparr>Metrics := ms\<rparr>) e serverURL = sendRequest h e serverURL)) \<and>
         (\<forall>name. list_all json_plain name \<longrightarrow> json_string e name = dquote @ name @ dquote)"
proof (intro conjI)
  show "\<forall>req \<in> set (fst (sendRequest h e serverURL)).
            Request_URL req = URL_String requestURL \<and>
            (if strings_Contains (URL_String requestURL) ''multiple''
             then Request_Method req = ''POST'' \<and>
                  Request_Body req =
                    ''{'' @ dquote @ ''metrics'' @ dquote @ '':''
                    @ (case Metrics h of
                         None \<Rightarrow> ''null''
                       | Some names \<Rightarrow>
                           ''['' @ strings_Join (map (json_string e) names) '','' @ '']'')
                    @ ''}''
             else Request_Method req = ''GET'' \<and> Request_Body req = '''')"
  proof
    fix req assume "req \<in> set (fst (sendRequest h e serverURL))"
    with assms have "built_request h e requestURL = Inr req"
      by (simp add: sendRequest_sent split: sum.splits)
    from built_request_shape[OF this]
    show "Request_URL req = URL_String requestURL \<and>
            (if strings_Contains (URL_String requestURL) ''multiple''
             then Request_Method req = ''POST'' \<and>
                  Request_Body req =
                    ''{'' @ dquote @ ''metrics'' @ dquote @ '':''
                    @ (case Metrics h of
                         None \<Rightarrow> ''null''
                       | Some names \<Rightarrow>
                           ''['' @ strings_Join (map (json_string e) names) '','' @ '']'')
                    @ ''}''
             else Request_Method req = ''GET'' \<and> Request_Body req = '''')"
      by (simp add: json_Marshal_body split: if_splits)
  qed
next
  have "fst (sendRequest h e serverURL) \<noteq> [] \<longleftrightarrow> (\<exists>req. built_request h e requestURL = Inr req)"
    using assms by (simp add: sendRequest_sent split: sum.splits)
  then show "fst (sendRequest h e serverURL) \<noteq> [] \<longleftrightarrow>
            (if strings_Contains (URL_String requestURL) ''multiple''
             then (\<exists>b. json_Marshal e \<lparr>Messagebody_Metrics = Metrics h\<rparr> = Inr b \<and>
                       http_NewRequest_err e ''POST'' (URL_String requestURL) b = None)
             else http_NewRequest_err e ''GET'' (URL_String requestURL) '''' = None)"
    by (simp only: built_request_iff)
next
  show "length (fst (sendRequest h e serverURL)) \<le> 1"
    by (simp add: sendRequest_sent split: sum.splits)
next
  show "\<not> strings_Contains (URL_String requestURL) ''multiple'' \<longrightarrow>
            (\<forall>ms. sendRequest (h\<lparr>Metrics := ms\<rparr>) e serverURL = sendRequest h e serverURL)"
    using sendRequest_namespace_ignores_Metrics[OF assms] by blast
next
  show "\<forall>name. list_all json_plain name \<longrightarrow> json_string e name = dquote @ name @ dquote"
    by (simp add: json_string_plain)
qed

lemma ex_multiple_mode:
  "strings_Contains ex_multiple ''multiple''" "\<not> strings_Contains ex_namespace ''multiple''"
  by (simp_all add: ex_multiple_def ex_namespace_def)

lemma ex_parse:
  "url_Parse ex_env ex_multiple = Inr \<lparr>URL_Host = ''graylog:12900'', URL_String = ex_multiple\<rparr>"
  "url_Parse ex_env ex_namespace = Inr \<lparr>URL_Host = ''down'', URL_String = ex_namespace\<rparr>"
  "url_Parse ex_env ex_no_port = Inr \<lparr>URL_Host = ''graylog'', URL_String = ex_no_port\<rparr>"
  by (simp_all add: ex_env_def ex_multiple_def ex_namespace_def ex_no_port_def ex_host_def)

lemma ex_plain: "list_all json_plain ''jvm.cl.loaded''" "list_all json_plain ''a.b''"
  "list_all json_plain ''c.d''"
  by (simp_all add: json_plain_def)

lemma ex_new_request: "http_NewRequest_err ex_env method u body = None"
  by (simp add: ex_env_def)

lemma ex_body: "json_Marshal e \<lparr>Messagebody_Metrics = Metrics ex_h\<rparr> = Inr ex_post_body"
  using ex_plain(1) by (simp add: json_Marshal_body json_string_plain ex_h_def ex_post_body_def)

lemma ex_sent_one:
  assumes "url_Parse ex_env u = Inr requestURL"
  shows "\<exists>req. fst (sendRequest h ex_env u) = [req]"
proof -
  have "\<exists>req. built_request h ex_env requestURL = Inr req"
    by (simp only: built_request_iff) (simp add: ex_new_request json_Marshal_body)
  with assms show ?thesis by (auto simp: sendRequest_sent)
qed

theorem sendRequest_method_and_body_witness:
  "url_Parse ex_env ex_multiple = Inr \<lparr>URL_Host = ''graylog:12900'', URL_String = ex_multiple\<rparr> \<and>
   strings_Contains ex_multiple ''multiple'' \<and>
   Metrics ex_h = Some [''jvm.cl.loaded''] \<and>
   map Request_Method (fst (sendRequest ex_h ex_env ex_multiple)) = [''POST''] \<and>
   map Request_Body (fst (sendRequest ex_h ex_env ex_multiple)) = [ex_post_body] \<and>
   map Request_Body (fst (sendRequest (ex_h\<lparr>Metrics := Some [''a.b'', ''c.d'']\<rparr>) ex_env ex_multiple))
     = [''{'' @ dquote @ ''metrics'' @ dquote @ '':['' @ dquote @ ''a.b'' @ dquote @ '',''
        @ dquote @ ''c.d'' @ dquote @ '']}''] \<and>
   map Request_Body (fst (sendRequest (ex_h\<lparr>Metrics := Some []\<rparr>) ex_env ex_multiple))
     = [''{'' @ dquote @ ''metrics'' @ dquote @ '':[]}''] \<and>
   url_Parse ex_env ex_namespace = Inr \<lparr>URL_Host = ''down'', URL_String = ex_namespace\<rparr> \<and>
   \<not> strings_Contains ex_namespace ''multiple'' \<and>
   map Request_Method (fst (sendRequest ex_h ex_env ex_namespace)) = [''GET''] \<and>
   map Request_Body (fst (sendRequest ex_h ex_env ex_namespace)) = [''''] \<and>
   sendRequest (ex_h\<lparr>Metrics := None\<rparr>) ex_env ex_namespace = sendRequest ex_h ex_env ex_namespace"
proof -
  note p1 = ex_parse(1) and p2 = ex_parse(2)
  have m: "Metrics ex_h = Some [''jvm.cl.loaded'']" by (simp add: ex_h_def)
  obtain r1 where r1: "fst (sendRequest ex_h ex_env ex_multiple) = [r1]"
    using ex_sent_one[OF p1] by blast
  obtain r2 where r2: "fst (sendRequest ex_h ex_env ex_namespace) = [r2]"
    using ex_sent_one[OF p2] by blast
  obtain r3 where r3: "fst (sendRequest (ex_h\<lparr>Metrics := Some [''a.b'', ''c.d'']\<rparr>) ex_env ex_multiple) = [r3]"
    using ex_sent_one[OF p1] by blast
  obtain r4 where r4: "fst (sendRequest (ex_h\<lparr>Metrics := Some []\<rparr>) ex_env ex_multiple) = [r4]"
    using ex_sent_one[OF p1] by blast
  have s1: "Request_Method r1 = ''POST'' \<and> Request_Body r1 = ex_post_body"
    using sendRequest_method_and_body[OF p1, of ex_h] r1 ex_multiple_mode(1) m ex_plain
    by (simp add: ex_post_body_def)
  have s2: "Request_Method r2 = ''GET'' \<and> Request_Body r2 = ''''"
    using sendRequest_method_and_body[OF p2, of ex_h] r2 ex_multiple_mode(2) by simp
  have s3: "Request_Body r3 = ''{'' @ dquote @ ''metrics'' @ dquote @ '':['' @ dquote @ ''a.b'' @ dquote @ '',''
        @ dquote @ ''c.d'' @ dquote @ '']}''"
    using sendRequest_method_and_body[OF p1, of "ex_h\<lparr>Metrics := Some [''a.b'', ''c.d'']\<rparr>"] r3
      ex_multiple_mode(1) ex_plain
    by simp
  have s4: "Request_Body r4 = ''{'' @ dquote @ ''metrics'' @ dquote @ '':[]}''"
    using sendRequest_method_and_body[OF p1, of "ex_h\<lparr>Metrics := Some []\<rparr>"] r4 ex_multiple_mode(1)
    by simp
  have s5: "sendRequest (ex_h\<lparr>Metrics := None\<rparr>) ex_env ex_namespace = sendRequest ex_h ex_env ex_namespace"
    using sendRequest_method_and_body[OF p2, of ex_h] ex_multiple_mode(2) by simp
  show ?thesis
    using p1 p2 m r1 r2 r3 r4 s1 s2 s3 s4 s5 ex_multiple_mode by simp
qed

text \<open>
  The claim as it was stated fails when no metric list is configured, so that
  \<open>h.Metrics\<close> is the nil slice: the body posted is the object whose member
  \<open>metrics\<close> is \<open>null\<close>, not an array of names.
\<close>

theorem sendRequest_method_and_body_counterexample:
  "Metrics (ex_h\<lparr>Metrics := None\<rparr>) = None \<and>
   strings_Contains ex_multiple ''multiple'' \<and>
   map Request_Method (fst (sendRequest (ex_h\<lparr>Metrics := None\<rparr>) ex_env ex_multiple)) = [''POST''] \<and>
   map Request_Body (fst (sendRequest (ex_h\<lparr>Metrics := None\<rparr>) ex_env ex_multiple))
     = [''{'' @ dquote @ ''metrics'' @ dquote @ '':null}''] \<and>
   ''{'' @ dquote @ ''metrics'' @ dquote @ '':null}'' \<noteq> ''{'' @ dquote @ ''metrics'' @ dquote @ '':[]}''"
proof -
  have b: "built_request (ex_h\<lparr>Metrics := None\<rparr>) ex_env
             \<lparr>URL_Host = ''graylog:12900'', URL_String = ex_multiple\<rparr> =
           Inr (fold Header_Add (sendRequest_headers (ex_h\<lparr>Metrics := None\<rparr>))
                  \<lparr>Request_Method = ''POST'', Request_URL = ex_multiple,
                   Request_Body = ''{'' @ dquote @ ''metrics'' @ dquote @ '':null}'',
                   Request_Header = Map.empty\<rparr>)"
    by (simp add: built_request_def ex_multiple_mode json_Marshal_body ex_new_request)
  show ?thesis
    by (simp add: sendRequest_sent ex_parse b ex_multiple_mode sendRequest_headers_def)
qed

text \<open>
  Claim C5. The header \<open>Authorization\<close> should be \<open>Basic\<close> followed by the base64
  encoding of \<open>username:password\<close>. The code encodes with \<open>base64.URLEncoding\<close>,
  whose alphabet has \<open>-\<close> and \<open>_\<close> where base64 has \<open>+\<close> and \<open>/\<close>: for the
  user \<open>admin\<close> with password \<open>pw?\<close> the header sent ends in \<open>_\<close>, the base64
  encoding in \<open>/\<close>.
\<close>

theorem sendRequest_authorization_url_alphabet:
  "map (\<lambda>req. Request_Header req ''Authorization'') (fst (sendRequest ex_h ex_env ex_multiple))
     = [Some [''Basic YWRtaW46cHc_'']] \<and>
   ''Basic '' @ EncodeToString encodeStd (Username ex_h @ '':'' @ Password ex_h)
     = ''Basic YWRtaW46cHc/''"
proof -
  have "built_request ex_h ex_env \<lparr>URL_Host = ''graylog:12900'', URL_String = ex_multiple\<rparr>
     = Inr (fold Header_Add (sendRequest_headers ex_h)
                            \<lparr>Request_Method = ''POST'', Request_URL = ex_multiple,
                             Request_Body = ex_post_body, Request_Header = Map.empty\<rparr>)"
    by (simp add: built_request_def ex_multiple_mode ex_body ex_new_request)
  moreover have "sendRequest_headers ex_h = [(''Content-Type'', ''application/json''), (''Accept'', ''application/json''),
      (''Authorization'', ''Basic YWRtaW46cHc_'')]"
    by (simp add: sendRequest_headers_def ex_h_def encodeURL_def)
  ultimately have "map (\<lambda>req. Request_Header req ''Authorization'') (fst (sendRequest ex_h ex_env ex_multiple))
     = [Some [''Basic YWRtaW46cHc_'']]"
    by (simp add: sendRequest_sent ex_parse Header_Add_def)
  moreover have "''Basic '' @ EncodeToString encodeStd (Username ex_h @ '':'' @ Password ex_h)
     = ''Basic YWRtaW46cHc/''"
    by (simp add: ex_h_def encodeStd_def)
  ultimately show ?thesis by blast
qed

lemma fmt_d_200: "fmt_d http_StatusOK = ''200''"
  by code_simp

lemma status_error_contains:
  "strings_Contains (Error (status_error e u code)) u"
  "strings_Contains (Error (status_error e u code)) (fmt_d code)"
  "strings_Contains (Error (status_error e u code)) ''200''"
proof -
  show "strings_Contains (Error (status_error e u code)) u"
    using strings_Contains_mid[of "''Response from url '' @ dquote" u]
    by (simp add: status_error_def)
  show "strings_Contains (Error (status_error e u code)) (fmt_d code)"
    using strings_Contains_mid[of "''Response from url '' @ dquote @ u @ dquote @ '' has status code ''" "fmt_d code"]
    by (simp add: status_error_def)
  show "strings_Contains (Error (status_error e u code)) ''200''"
    using strings_Contains_mid[of "''Response from url '' @ dquote @ u @ dquote @ '' has status code ''
       @ fmt_d code @ '' ('' @ http_StatusText e code @ ''), expected ''" "''200''"]
    by (simp add: status_error_def fmt_d_200)
qed

lemma sendRequest_err_after_response:
  assumes "url_Parse e serverURL = Inr requestURL"
    and "fst (sendRequest h e serverURL) = [req]"
    and "MakeRequest e req = Inr resp"
  shows "sendRequest_err h e serverURL = response_error e requestURL resp"
proof -
  from assms(1,2) have "built_request h e requestURL = Inr req"
    by (simp add: sendRequest_sent split: sum.splits)
  with assms(1,3) show ?thesis by (simp add: sendRequest_err_def sendRequest_unfold)
qed

lemma gatherServer_sendRequest_error:
  assumes "sendRequest_err h e serverURL = Some err"
  shows "gatherServer h e acc serverURL = Inr (Some err, acc)"
  using assms by (cases "sendRequest h e serverURL") (simp add: gatherServer_def sendRequest_err_def)

text \<open>
  Claim C6, as amended. Let the server URL parse, and let \<open>resp\<close> be the response to
  the request that \<open>sendRequest\<close> sends. If the status code is not 200,
  \<open>sendRequest\<close> returns an error and \<open>gatherServer\<close> returns it without adding
  anything to the accumulator. If moreover the body was read without error, the message
  of that error contains the request URL, the status code received and the expected
  code 200. If the status code is 200, the only error \<open>sendRequest\<close> can return is
  that of reading the body. An error of reading the body is returned as it is, whatever
  the status code.
\<close>

theorem sendRequest_status_error:
  assumes "url_Parse e serverURL = Inr requestURL"
    and "fst (sendRequest h e serverURL) = [req]"
    and "MakeRequest e req = Inr resp"
  shows "(StatusCode resp \<noteq> 200 \<longrightarrow>
            (\<exists>err. sendRequest_err h e serverURL = Some err \<and>
                   (\<forall>acc. gatherServer h e acc serverURL = Inr (Some err, acc)))) \<and>
         (StatusCode resp \<noteq> 200 \<and> Response_ReadErr resp = None \<longrightarrow>
            sendRequest_err h e serverURL =
              Some (status_error e (URL_String requestURL) (StatusCode resp)) \<and>
            Request_URL req = URL_String requestURL \<and>
            strings_Contains (Error (status_error e (URL_String requestURL) (StatusCode resp)))
              (URL_String requestURL) \<and>
            strings_Contains (Error (status_error e (URL_String requestURL) (StatusCode resp)))
              (fmt_d (StatusCode resp)) \<and>
            strings_Contains (Error (status_error e (URL_String requestURL) (StatusCode resp)))
              ''200'') \<and>
         (StatusCode resp = 200 \<longrightarrow> sendRequest_err h e serverURL = Response_ReadErr resp) \<and>
         (Response_ReadErr resp \<noteq> None \<longrightarrow>
            sendRequest_err h e serverURL = Response_ReadErr resp)"
proof -
  note r = sendRequest_err_after_response[OF assms]
  from assms(1,2) have br: "built_request h e requestURL = Inr req"
    by (simp add: sendRequest_sent split: sum.splits)
  have u: "Request_URL req = URL_String requestURL"
    using built_request_shape[OF br] by blast
  have a: "StatusCode resp \<noteq> 200 \<longrightarrow>
            (\<exists>err. sendRequest_err h e serverURL = Some err \<and>
                   (\<forall>acc. gatherServer h e acc serverURL = Inr (Some err, acc)))"
  proof
    assume "StatusCode resp \<noteq> 200"
    with r obtain err where "sendRequest_err h e serverURL = Some err"
      by (auto simp: response_error_def http_StatusOK_def split: option.splits)
    then show "\<exists>err. sendRequest_err h e serverURL = Some err \<and>
                   (\<forall>acc. gatherServer h e acc serverURL = Inr (Some err, acc))"
      using gatherServer_sendRequest_error by blast
  qed
  have b: "StatusCode resp \<noteq> 200 \<and> Response_ReadErr resp = None \<longrightarrow>
            sendRequest_err h e serverURL =
              Some (status_error e (URL_String requestURL) (StatusCode resp))"
    using r by (simp add: response_error_def http_StatusOK_def)
  have c: "StatusCode resp = 200 \<longrightarrow> sendRequest_err h e serverURL = Response_ReadErr resp"
    using r by (simp add: response_error_def http_StatusOK_def split: option.splits)
  have d: "Response_ReadErr resp \<noteq> None \<longrightarrow>
            sendRequest_err h e serverURL = Response_ReadErr resp"
    using r by (auto simp: response_error_def)
  show ?thesis
    using a b c d u status_error_contains(1)[of e "URL_String requestURL" "StatusCode resp"]
      status_error_contains(2)[of e "URL_String requestURL" "StatusCode resp"]
      status_error_contains(3)[of e "URL_String requestURL" "StatusCode resp"]
    by (intro conjI impI) simp_all
qed

lemma ex_env_truncated_simps:
  "url_Parse ex_env_truncated = url_Parse ex_env"
  "json_Marshal ex_env_truncated = json_Marshal ex_env"
  "http_NewRequest_err ex_env_truncated = http_NewRequest_err ex_env"
proof -
  show "url_Parse ex_env_truncated = url_Parse ex_env"
    by (simp add: ex_env_truncated_def)
  show "json_Marshal ex_env_truncated = json_Marshal ex_env"
    by (rule json_Marshal_cong) (simp add: ex_env_truncated_def)
  show "http_NewRequest_err ex_env_truncated = http_NewRequest_err ex_env"
    by (simp add: ex_env_truncated_def)
qed

lemma ex_built_namespace:
  "built_request ex_h e \<lparr>URL_Host = a, URL_String = ex_namespace\<rparr> =
     (case http_NewRequest_err e ''GET'' ex_namespace '''' of
        Some err \<Rightarrow> Inl err
      | None \<Rightarrow> Inr (fold Header_Add (sendRequest_headers ex_h)
                       \<lparr>Request_Method = ''GET'', Request_URL = ex_namespace,
                        Request_Body = '''', Request_Header = Map.empty\<rparr>))"
  by (simp add: built_request_def ex_multiple_mode split: option.splits)

lemma ex_sent_namespace:
  "fst (sendRequest ex_h ex_env ex_namespace) =
     [fold Header_Add (sendRequest_headers ex_h)
        \<lparr>Request_Method = ''GET'', Request_URL = ex_namespace,
         Request_Body = '''', Request_Header = Map.empty\<rparr>]"
  "fst (sendRequest ex_h ex_env_truncated ex_namespace) =
     [fold Header_Add (sendRequest_headers ex_h)
        \<lparr>Request_Method = ''GET'', Request_URL = ex_namespace,
         Request_Body = '''', Request_Header = Map.empty\<rparr>]"
proof -
  have "http_NewRequest_err ex_env ''GET'' ex_namespace '''' = None" by (simp add: ex_env_def)
  then show "fst (sendRequest ex_h ex_env ex_namespace) =
     [fold Header_Add (sendRequest_headers ex_h)
        \<lparr>Request_Method = ''GET'', Request_URL = ex_namespace,
         Request_Body = '''', Request_Header = Map.empty\<rparr>]"
    "fst (sendRequest ex_h ex_env_truncated ex_namespace) =
     [fold Header_Add (sendRequest_headers ex_h)
        \<lparr>Request_Method = ''GET'', Request_URL = ex_namespace,
         Request_Body = '''', Request_Header = Map.empty\<rparr>]"
    by (simp_all add: sendRequest_sent ex_env_truncated_simps ex_parse ex_built_namespace)
qed

lemma ex_request_url:
  "Request_URL (fold Header_Add (sendRequest_headers h) req) = Request_URL req"
  by (simp add: sendRequest_headers_def)

theorem sendRequest_status_error_witness:
  "url_Parse ex_env ex_namespace = Inr \<lparr>URL_Host = ''down'', URL_String = ex_namespace\<rparr> \<and>
   map (MakeRequest ex_env) (fst (sendRequest ex_h ex_env ex_namespace)) =
     [Inr \<lparr>StatusCode = 500, Response_Body = '''', Response_ReadErr = None\<rparr>] \<and>
   sendRequest_err ex_h ex_env ex_namespace = Some (status_error ex_env ex_namespace 500) \<and>
   gatherServer ex_h ex_env [] ex_namespace = Inr (Some (status_error ex_env ex_namespace 500), []) \<and>
   strings_Contains (Error (status_error ex_env ex_namespace 500)) ex_namespace \<and>
   strings_Contains (Error (status_error ex_env ex_namespace 500)) ''500'' \<and>
   strings_Contains (Error (status_error ex_env ex_namespace 500)) ''200''"
proof -
  let ?req = "fold Header_Add (sendRequest_headers ex_h)
        \<lparr>Request_Method = ''GET'', Request_URL = ex_namespace,
         Request_Body = '''', Request_Header = Map.empty\<rparr>"
  have mk: "MakeRequest ex_env ?req = Inr \<lparr>StatusCode = 500, Response_Body = '''', Response_ReadErr = None\<rparr>"
    by (simp add: ex_env_def ex_request_url)
  have d: "fmt_d 500 = ''500''" by code_simp
  note t = sendRequest_status_error[OF ex_parse(2) ex_sent_namespace(1) mk]
  from t have e: "sendRequest_err ex_h ex_env ex_namespace = Some (status_error ex_env ex_namespace 500)"
    by simp
  from t e have g: "gatherServer ex_h ex_env [] ex_namespace = Inr (Some (status_error ex_env ex_namespace 500), [])"
    by simp
  from t d have c: "strings_Contains (Error (status_error ex_env ex_namespace 500)) ex_namespace \<and>
   strings_Contains (Error (status_error ex_env ex_namespace 500)) ''500'' \<and>
   strings_Contains (Error (status_error ex_env ex_namespace 500)) ''200''"
    by simp
  show ?thesis using ex_parse(2) ex_sent_namespace(1) mk e g c by simp
qed

text \<open>
  The claim as it was stated fails on a response with status 500 whose body cannot be
  read to its end: the error returned is that of the read, and its message contains
  neither the URL nor a status code.
\<close>

theorem sendRequest_status_error_counterexample:
  "map (MakeRequest ex_env_truncated) (fst (sendRequest ex_h ex_env_truncated ex_namespace)) =
     [Inr \<lparr>StatusCode = 500, Response_Body = '''',
           Response_ReadErr = Some (errors_New ''unexpected EOF'')\<rparr>] \<and>
   sendRequest_err ex_h ex_env_truncated ex_namespace = Some (errors_New ''unexpected EOF'') \<and>
   \<not> strings_Contains ''unexpected EOF'' ex_namespace \<and>
   \<not> strings_Contains ''unexpected EOF'' ''500'' \<and>
   \<not> strings_Contains ''unexpected EOF'' ''200''"
proof -
  let ?req = "fold Header_Add (sendRequest_headers ex_h)
        \<lparr>Request_Method = ''GET'', Request_URL = ex_namespace,
         Request_Body = '''', Request_Header = Map.empty\<rparr>"
  have b: "built_request ex_h ex_env_truncated \<lparr>URL_Host = ''down'', URL_String = ex_namespace\<rparr> = Inr ?req"
    by (simp add: ex_built_namespace ex_env_truncated_simps) (simp add: ex_env_def)
  have mk: "MakeRequest ex_env_truncated ?req = Inr \<lparr>StatusCode = 500, Response_Body = '''',
           Response_ReadErr = Some (errors_New ''unexpected EOF'')\<rparr>"
    by (simp add: ex_env_truncated_def)
  have e: "sendRequest_err ex_h ex_env_truncated ex_namespace = Some (errors_New ''unexpected EOF'')"
    by (simp add: sendRequest_err_def sendRequest_unfold ex_env_truncated_simps ex_parse b mk
          response_error_def)
  have n: "\<not> strings_Contains ''unexpected EOF'' ex_namespace \<and>
   \<not> strings_Contains ''unexpected EOF'' ''500'' \<and>
   \<not> strings_Contains ''unexpected EOF'' ''200''"
    by (simp add: ex_namespace_def)
  show ?thesis using ex_sent_namespace(2) mk e n by simp
qed

subsection \<open>gatherServer and Gather\<close>

lemma gatherServer_range_panic_kind:
  "gatherServer_range ms host port acc \<noteq> Inl NilPointerDereference"
  by (induction ms arbitrary: acc)
     (auto simp: flatten_panic_kind(1) simp del: flatten.simps split: sum.splits)

lemma sendRequest_ok_parse:
  assumes "sendRequest_err h e serverURL = None"
  shows "\<exists>requestURL. url_Parse e serverURL = Inr requestURL"
  using assms by (cases "url_Parse e serverURL") (simp_all add: sendRequest_err_def sendRequest_unfold)

lemma gatherServer_no_nil:
  "gatherServer h e acc serverURL \<noteq> Inl NilPointerDereference"
proof (cases "sendRequest h e serverURL")
  case (fields sent resp t err)
  show ?thesis
  proof (cases err)
    case None
    with fields have "sendRequest_err h e serverURL = None" by (simp add: sendRequest_err_def)
    from sendRequest_ok_parse[OF this] obtain requestURL
      where "url_Parse e serverURL = Inr requestURL" by blast
    with fields None show ?thesis
      by (auto simp: gatherServer_def gatherServer_range_panic_kind split: sum.splits prod.splits)
  next
    case (Some a)
    with fields show ?thesis by (simp add: gatherServer_def)
  qed
qed

text \<open>
  Claim C10. \<open>gatherServer\<close> reads \<open>requestURL.Host\<close> before it tests the error of
  \<open>url.Parse\<close>. Whenever \<open>sendRequest\<close> has returned without error,
  \<open>url.Parse\<close> succeeds on the same server URL, so on no input does
  \<open>gatherServer\<close> dereference a nil parse result: the test of the parse error that
  follows the read never finds an error.
\<close>

theorem gatherServer_parse_never_nil:
  "(sendRequest_err h e serverURL = None \<longrightarrow>
      (\<exists>requestURL. url_Parse e serverURL = Inr requestURL)) \<and>
   gatherServer h e acc serverURL \<noteq> Inl NilPointerDereference"
  using sendRequest_ok_parse gatherServer_no_nil by blast

lemma gatherServer_range_records:
  assumes "list_all (\<lambda>m. no_int (VMap (Fields m))) ms"
  shows "gatherServer_range ms host port acc = Inr (acc @ map (record_of host port) ms)"
  using assms
proof (induction ms arbitrary: acc)
  case Nil
  then show ?case by simp
next
  case (Cons m ms)
  from Cons.prems have "no_int (VMap (Fields m))" by simp
  from flatten_total[OF this] obtain out where out: "flatten (Fields m) Map.empty '''' = Inr out"
    by blast
  then have fl: "flattened (Fields m) = out" by (simp add: flattened_def)
  from Cons.prems have "list_all (\<lambda>m. no_int (VMap (Fields m))) ms" by simp
  from Cons.IH[OF this] out fl show ?case
    by (simp add: AddFields_def record_of_def del: flatten.simps)
qed

text \<open>
  Claim C8. Let the request for a server URL succeed and its body decode, and let
  \<open>net.SplitHostPort\<close> fail on the authority of the URL, returning \<open>host\<close> and
  \<open>port\<close> with its error. Then \<open>gatherServer\<close> returns no error; and, the decoded
  fields holding no Go \<open>int\<close> (as is the case for all that \<open>encoding/json\<close>
  decodes), it returns nil after emitting one record per metric, tagged with that
  \<open>host\<close> and \<open>port\<close> (empty strings in the witness).
\<close>

theorem gatherServer_split_error_ignored:
  assumes "sendRequest h e serverURL = (sent, resp, t, None)"
    and "url_Parse e serverURL = Inr requestURL"
    and "net_SplitHostPort e (URL_Host requestURL) = (host, port, Some split_err)"
    and "json_Unmarshal e resp = Inr dat"
  shows "(\<forall>err acc'. gatherServer h e acc serverURL \<noteq> Inr (Some err, acc')) \<and>
         (list_all (\<lambda>m. no_int (VMap (Fields m))) (ResponseMetrics_Metrics dat) \<longrightarrow>
            gatherServer h e acc serverURL =
              Inr (None, acc @ map (record_of host port) (ResponseMetrics_Metrics dat)))"
proof
  show "\<forall>err acc'. gatherServer h e acc serverURL \<noteq> Inr (Some err, acc')"
    using assms by (simp add: gatherServer_def split: sum.splits)
  show "list_all (\<lambda>m. no_int (VMap (Fields m))) (ResponseMetrics_Metrics dat) \<longrightarrow>
            gatherServer h e acc serverURL =
              Inr (None, acc @ map (record_of host port) (ResponseMetrics_Metrics dat))"
    using assms gatherServer_range_records[of "ResponseMetrics_Metrics dat" host port acc]
    by (simp add: gatherServer_def)
qed

lemma sendRequest_headers_client_irrelevant:
  "sendRequest_headers (h\<lparr>client := c\<rparr>) = sendRequest_headers h"
  by (simp add: sendRequest_headers_def)

lemma built_request_client_irrelevant:
  "built_request (h\<lparr>client := c\<rparr>) e requestURL = built_request h e requestURL"
  by (simp add: built_request_def sendRequest_headers_client_irrelevant
           cong: sum.case_cong option.case_cong)

lemma sendRequest_client_irrelevant:
  "sendRequest (h\<lparr>client := c\<rparr>) e serverURL = sendRequest h e serverURL"
  by (simp add: sendRequest_unfold built_request_client_irrelevant cong: sum.case_cong)

lemma gatherServer_client_irrelevant:
  "gatherServer (h\<lparr>client := c\<rparr>) e acc serverURL = gatherServer h e acc serverURL"
  by (simp add: gatherServer_def sendRequest_client_irrelevant)

lemma gatherServer_result:
  assumes "json_decodes_no_int e"
  shows "\<exists>err recs. (err \<noteq> None \<longrightarrow> recs = []) \<and>
           (\<forall>acc. gatherServer h e acc serverURL = Inr (err, acc @ recs))"
proof (cases "sendRequest h e serverURL")
  case (fields sent resp t err)
  show ?thesis
  proof (cases err)
    case (Some a)
    with fields have "\<forall>acc. gatherServer h e acc serverURL = Inr (Some a, acc @ [])"
      by (simp add: gatherServer_def)
    then show ?thesis by blast
  next
    case None
    with fields have "sendRequest_err h e serverURL = None" by (simp add: sendRequest_err_def)
    from sendRequest_ok_parse[OF this] obtain requestURL
      where u: "url_Parse e serverURL = Inr requestURL" by blast
    obtain host port split_err
      where sp: "net_SplitHostPort e (URL_Host requestURL) = (host, port, split_err)"
      by (cases "net_SplitHostPort e (URL_Host requestURL)")
    show ?thesis
    proof (cases "json_Unmarshal e resp")
      case (Inl a)
      with fields None u sp have "\<forall>acc. gatherServer h e acc serverURL = Inr (Some a, acc @ [])"
        by (simp add: gatherServer_def)
      then show ?thesis by blast
    next
      case (Inr dat)
      with assms have "list_all (\<lambda>m. no_int (VMap (Fields m))) (ResponseMetrics_Metrics dat)"
        unfolding json_decodes_no_int_def by blast
      from gatherServer_range_records[OF this] fields None u sp Inr
      have "\<forall>acc. gatherServer h e acc serverURL =
              Inr (None, acc @ map (record_of host port) (ResponseMetrics_Metrics dat))"
        by (simp add: gatherServer_def)
      then show ?thesis by blast
    qed
  qed
qed

lemma gatherServer_endpoint:
  assumes "json_decodes_no_int e"
  shows "gatherServer h e acc server =
           Inr (endpoint_error h e server, acc @ endpoint_records h e server)"
    and "endpoint_error h e server \<noteq> None \<Longrightarrow> endpoint_records h e server = []"
proof -
  from gatherServer_result[OF assms, of h server] obtain err recs
    where r: "err \<noteq> None \<longrightarrow> recs = []"
      "\<forall>acc. gatherServer h e acc server = Inr (err, acc @ recs)" by blast
  from r(2) have "gatherServer h e [] server = Inr (err, recs)" by (metis append_Nil)
  then have e: "endpoint_error h e server = err" "endpoint_records h e server = recs"
    by (simp_all add: endpoint_error_def endpoint_records_def)
  from r(2) e show "gatherServer h e acc server =
           Inr (endpoint_error h e server, acc @ endpoint_records h e server)" by simp
  from r(1) e show "endpoint_error h e server \<noteq> None \<Longrightarrow> endpoint_records h e server = []"
    by simp
qed

lemma Gather_tasks_result:
  assumes "json_decodes_no_int e"
  shows "Gather_tasks h e sched acc errorChannel =
           Inr (acc @ concat (map (endpoint_records h e) sched),
                errorChannel @ List.map_filter (endpoint_error h e) sched)"
proof (induction sched arbitrary: acc errorChannel)
  case Nil
  then show ?case by (simp add: List.map_filter_simps)
next
  case (Cons server sched)
  show ?case
    by (cases "endpoint_error h e server")
       (simp_all add: gatherServer_endpoint(1)[OF assms] Cons.IH List.map_filter_simps)
qed

lemma map_filter_Nil_iff:
  "List.map_filter f xs = [] \<longleftrightarrow> (\<forall>x \<in> set xs. f x = None)"
  by (induction xs) (auto simp: List.map_filter_simps split: option.splits)

lemma endpoint_client_irrelevant:
  "endpoint_error (h\<lparr>client := c\<rparr>) e = endpoint_error h e"
  "endpoint_records (h\<lparr>client := c\<rparr>) e = endpoint_records h e"
  by (simp_all add: fun_eq_iff endpoint_error_def endpoint_records_def gatherServer_client_irrelevant)

lemma Gather_after_client:
  assumes "json_decodes_no_int e"
  shows "(case Gather_tasks h' e sched acc [] of
             Inl p \<Rightarrow> Inl p
           | Inr (acc', errorChannel) \<Rightarrow>
               (let errorStrings = map Error errorChannel in
                if length errorStrings = 0 then Inr (None, acc', h')
                else Inr (Some (errors_New (strings_Join errorStrings [CHR 0x0A])), acc', h')))
         = Inr (if List.map_filter (endpoint_error h' e) sched = [] then None
                else Some (errors_New (strings_Join
                        (map Error (List.map_filter (endpoint_error h' e) sched)) [CHR 0x0A])),
                acc @ concat (map (endpoint_records h' e) sched), h')"
  by (simp add: Gather_tasks_result[OF assms])

lemma Gather_result_ok:
  assumes "client h \<noteq> None \<or>
           (\<exists>tlsCfg. GetTLSConfig e (SSLCert h) (SSLKey h) (SSLCA h) (InsecureSkipVerify h)
                        = Inr tlsCfg)"
    and "mset sched = mset (Servers h)"
    and "json_decodes_no_int e"
  shows "\<exists>err h'. Gather h e sched acc
                     = Inr (err, acc @ concat (map (endpoint_records h e) sched), h') \<and>
           (err = None \<longleftrightarrow> (\<forall>server \<in> set (Servers h). endpoint_error h e server = None)) \<and>
           (err \<noteq> None \<longrightarrow>
              err = Some (errors_New (strings_Join
                      (map Error (List.map_filter (endpoint_error h e) sched)) [CHR 0x0A]))) \<and>
           (\<forall>server \<in> set (Servers h).
              endpoint_error h e server \<noteq> None \<longrightarrow> endpoint_records h e server = [])"
proof -
  let ?errs = "List.map_filter (endpoint_error h e) sched"
  let ?err = "if ?errs = [] then None
              else Some (errors_New (strings_Join (map Error ?errs) [CHR 0x0A]))"
  from assms(2) have s: "set sched = set (Servers h)" by (metis set_mset_mset)
  have g: "\<exists>h'. Gather h e sched acc
                  = Inr (?err, acc @ concat (map (endpoint_records h e) sched), h')"
  proof (cases "client h")
    case (Some c)
    then show ?thesis
      by (simp add: Gather_def Gather_after_client[OF assms(3)] del: length_0_conv)
  next
    case None
    with assms(1) obtain tlsCfg
      where "GetTLSConfig e (SSLCert h) (SSLKey h) (SSLCA h) (InsecureSkipVerify h) = Inr tlsCfg"
      by blast
    with None show ?thesis
      by (simp add: Gather_def Gather_after_client[OF assms(3)] endpoint_client_irrelevant
               del: length_0_conv)
  qed
  have a: "?err = None \<longleftrightarrow> (\<forall>server \<in> set (Servers h). endpoint_error h e server = None)"
    using s by (simp add: map_filter_Nil_iff)
  have b: "?err \<noteq> None \<longrightarrow> ?err = Some (errors_New (strings_Join (map Error ?errs) [CHR 0x0A]))"
    by simp
  have c: "\<forall>server \<in> set (Servers h).
              endpoint_error h e server \<noteq> None \<longrightarrow> endpoint_records h e server = []"
    using gatherServer_endpoint(2)[OF assms(3)] by blast
  from g obtain h' :: GrayLog where h': "Gather h e sched acc
                  = Inr (?err, acc @ concat (map (endpoint_records h e) sched), h')" by blast
  show ?thesis
    by (rule exI[of _ ?err], rule exI[of _ h'], intro conjI) (rule h', rule a, rule b, rule c)
qed

lemma Gather_tls_failure:
  assumes "client h = None"
    and "GetTLSConfig e (SSLCert h) (SSLKey h) (SSLCA h) (InsecureSkipVerify h) = Inl err"
  shows "Gather h e sched acc = Inr (Some err, acc, h)"
  using assms by (simp add: Gather_def)

text \<open>
  Claim C3, as amended. Let \<open>sched\<close> be the servers in the order in which their tasks
  run, and let the JSON decoder produce no Go \<open>int\<close>. If the HTTP client is not set
  yet and the TLS configuration fails to load, \<open>Gather\<close> returns the error of the
  load and leaves the accumulator as it was, whatever the servers. If the client is set
  already or the TLS configuration loads, \<open>Gather\<close> returns; its result is nil if and
  only if the gather of every configured server succeeded; otherwise it is one error
  whose message is the newline-joined messages of the failed endpoints, in the order of
  their tasks; the accumulator receives the records of every endpoint, and an endpoint
  that failed has none.
\<close>

theorem Gather_result:
  assumes "mset sched = mset (Servers h)" and "json_decodes_no_int e"
  shows "(\<forall>err. client h = None \<and>
                GetTLSConfig e (SSLCert h) (SSLKey h) (SSLCA h) (InsecureSkipVerify h) = Inl err \<longrightarrow>
            Gather h e sched acc = Inr (Some err, acc, h)) \<and>
         (client h \<noteq> None \<or>
          (\<exists>tlsCfg. GetTLSConfig e (SSLCert h) (SSLKey h) (SSLCA h) (InsecureSkipVerify h)
                       = Inr tlsCfg) \<longrightarrow>
            (\<exists>err h'. Gather h e sched acc
                     = Inr (err, acc @ concat (map (endpoint_records h e) sched), h') \<and>
               (err = None \<longleftrightarrow>
                  (\<forall>server \<in> set (Servers h). endpoint_error h e server = None)) \<and>
               (err \<noteq> None \<longrightarrow>
                  err = Some (errors_New (strings_Join
                          (map Error (List.map_filter (endpoint_error h e) sched)) [CHR 0x0A]))) \<and>
               (\<forall>server \<in> set (Servers h).
                  endpoint_error h e server \<noteq> None \<longrightarrow> endpoint_records h e server = [])))"
proof (intro conjI allI impI)
  fix err
  assume "client h = None \<and>
          GetTLSConfig e (SSLCert h) (SSLKey h) (SSLCA h) (InsecureSkipVerify h) = Inl err"
  then show "Gather h e sched acc = Inr (Some err, acc, h)"
    using Gather_tls_failure by blast
next
  assume "client h \<noteq> None \<or>
          (\<exists>tlsCfg. GetTLSConfig e (SSLCert h) (SSLKey h) (SSLCA h) (InsecureSkipVerify h)
                       = Inr tlsCfg)"
  then show "\<exists>err h'. Gather h e sched acc
                     = Inr (err, acc @ concat (map (endpoint_records h e) sched), h') \<and>
               (err = None \<longleftrightarrow>
                  (\<forall>server \<in> set (Servers h). endpoint_error h e server = None)) \<and>
               (err \<noteq> None \<longrightarrow>
                  err = Some (errors_New (strings_Join
                          (map Error (List.map_filter (endpoint_error h e) sched)) [CHR 0x0A]))) \<and>
               (\<forall>server \<in> set (Servers h).
                  endpoint_error h e server \<noteq> None \<longrightarrow> endpoint_records h e server = [])"
    by (rule Gather_result_ok[OF _ assms])
qed

lemma ex_urls_distinct:
  "ex_multiple \<noteq> ex_namespace" "ex_no_port \<noteq> ex_namespace"
  by (simp_all add: ex_multiple_def ex_namespace_def ex_no_port_def)

lemma ex_no_port_mode: "strings_Contains ex_no_port ''multiple''"
  by (simp add: ex_no_port_def)

lemma ex_parse_bad: "url_Parse ex_env ex_bad =
    Inl (errors_New ''net/url: invalid control character in URL'')"
  by (simp add: ex_env_def ex_bad_def)

lemma ex_built:
  "\<exists>body. built_request h ex_env \<lparr>URL_Host = a, URL_String = u\<rparr> =
     Inr (fold Header_Add (sendRequest_headers h)
            \<lparr>Request_Method = (if strings_Contains u ''multiple'' then ''POST'' else ''GET''),
             Request_URL = u, Request_Body = body, Request_Header = Map.empty\<rparr>)"
  by (cases "strings_Contains u ''multiple''")
     (auto simp: built_request_def json_Marshal_body ex_new_request)

lemma ex_MakeRequest:
  "MakeRequest ex_env (fold Header_Add (sendRequest_headers h) req) =
     (if Request_URL req = ex_namespace
      then Inr \<lparr>StatusCode = 500, Response_Body = '''', Response_ReadErr = None\<rparr>
      else Inr \<lparr>StatusCode = 200, Response_Body = ''{}'', Response_ReadErr = None\<rparr>)"
  by (simp add: ex_env_def ex_request_url)

lemma ex_time: "time_Since ex_env req = 0"
  by (simp add: ex_env_def)

lemma ex_sendRequest_parsed:
  assumes "url_Parse ex_env u = Inr \<lparr>URL_Host = a, URL_String = u\<rparr>"
  shows "snd (sendRequest h ex_env u) =
           (if u = ex_namespace then ('''', 0, Some (status_error ex_env ex_namespace 500))
            else (''{}'', 0, None))"
proof -
  from ex_built[of h a u] obtain body where
    b: "built_request h ex_env \<lparr>URL_Host = a, URL_String = u\<rparr> =
          Inr (fold Header_Add (sendRequest_headers h)
                 \<lparr>Request_Method = (if strings_Contains u ''multiple'' then ''POST'' else ''GET''),
                  Request_URL = u, Request_Body = body, Request_Header = Map.empty\<rparr>)"
    by blast
  show ?thesis
    by (simp add: sendRequest_unfold assms b ex_MakeRequest ex_time response_error_def
          http_StatusOK_def)
qed

lemma ex_sendRequest:
  "snd (sendRequest h ex_env ex_multiple) = (''{}'', 0, None)"
  "snd (sendRequest h ex_env ex_no_port) = (''{}'', 0, None)"
  "snd (sendRequest h ex_env ex_namespace) = ('''', 0, Some (status_error ex_env ex_namespace 500))"
  "snd (sendRequest h ex_env ex_bad) = ('''', float64_minus_1, Some (invalid_url_error ex_bad))"
  using ex_sendRequest_parsed[OF ex_parse(1), of h] ex_sendRequest_parsed[OF ex_parse(3), of h]
    ex_sendRequest_parsed[OF ex_parse(2), of h]
  by (simp_all add: ex_urls_distinct) (simp add: sendRequest_unfold ex_parse_bad)

lemma ex_json: "json_decodes_no_int ex_env"
  by (simp add: json_decodes_no_int_def ex_env_def ex_metric_def ex_nested_def)

lemma ex_unmarshal:
  "json_Unmarshal ex_env body = Inr \<lparr>total = 0, ResponseMetrics_Metrics = [ex_metric]\<rparr>"
  by (simp add: ex_env_def)

lemma ex_split:
  "net_SplitHostPort ex_env ''graylog'' = ('''', '''', Some (errors_New ''missing port in address''))"
  "net_SplitHostPort ex_env ''graylog:12900'' = (''graylog'', ''12900'', None)"
  by (simp_all add: ex_env_def)

lemma ex_record:
  "record_of host port ex_metric =
     \<lparr>measurement = ''m'',
      added_fields = [''x'' \<mapsto> VFloat64 float64_1, ''y_z'' \<mapsto> VFloat64 float64_2_5],
      added_tags = [''server'' \<mapsto> host, ''port'' \<mapsto> port, ''name'' \<mapsto> ''n'', ''type'' \<mapsto> ''t'']\<rparr>"
  by (simp add: record_of_def flattened_def ex_metric_def ex_nested_def)

lemma ex_gatherServer:
  "gatherServer h ex_env acc ex_multiple = Inr (None, acc @ [record_of ''graylog'' ''12900'' ex_metric])"
  "gatherServer h ex_env acc ex_no_port = Inr (None, acc @ [record_of '''' '''' ex_metric])"
  "gatherServer h ex_env acc ex_namespace = Inr (Some (status_error ex_env ex_namespace 500), acc)"
  "gatherServer h ex_env acc ex_bad = Inr (Some (invalid_url_error ex_bad), acc)"
proof -
  have r: "gatherServer_range [ex_metric] host port acc = Inr (acc @ [record_of host port ex_metric])"
    for host port
    using gatherServer_range_records[of "[ex_metric]" host port acc]
    by (simp add: ex_metric_def ex_nested_def)
  show "gatherServer h ex_env acc ex_multiple = Inr (None, acc @ [record_of ''graylog'' ''12900'' ex_metric])"
    using ex_sendRequest(1)[of h]
    by (cases "sendRequest h ex_env ex_multiple") (simp add: gatherServer_def ex_parse ex_split ex_unmarshal r del: gatherServer_range.simps)
  show "gatherServer h ex_env acc ex_no_port = Inr (None, acc @ [record_of '''' '''' ex_metric])"
    using ex_sendRequest(2)[of h]
    by (cases "sendRequest h ex_env ex_no_port") (simp add: gatherServer_def ex_parse ex_split ex_unmarshal r del: gatherServer_range.simps)
  show "gatherServer h ex_env acc ex_namespace = Inr (Some (status_error ex_env ex_namespace 500), acc)"
    using ex_sendRequest(3)[of h]
    by (cases "sendRequest h ex_env ex_namespace") (simp add: gatherServer_def)
  show "gatherServer h ex_env acc ex_bad = Inr (Some (invalid_url_error ex_bad), acc)"
    using ex_sendRequest(4)[of h]
    by (cases "sendRequest h ex_env ex_bad") (simp add: gatherServer_def)
qed

lemma ex_endpoint:
  "endpoint_error h ex_env ex_multiple = None"
  "endpoint_records h ex_env ex_multiple = [record_of ''graylog'' ''12900'' ex_metric]"
  "endpoint_error h ex_env ex_namespace = Some (status_error ex_env ex_namespace 500)"
  "endpoint_error h ex_env ex_bad = Some (invalid_url_error ex_bad)"
  by (simp_all add: endpoint_error_def endpoint_records_def ex_gatherServer)

theorem gatherServer_parse_never_nil_witness:
  "sendRequest_err ex_h ex_env ex_multiple = None \<and>
   url_Parse ex_env ex_multiple = Inr \<lparr>URL_Host = ''graylog:12900'', URL_String = ex_multiple\<rparr> \<and>
   gatherServer ex_h ex_env [] ex_multiple \<noteq> Inl NilPointerDereference"
  using gatherServer_parse_never_nil[of ex_h ex_env ex_multiple "[]"]
  by (simp add: sendRequest_err_def ex_sendRequest ex_parse)

theorem gatherServer_split_error_ignored_witness:
  "snd (sendRequest ex_h ex_env ex_no_port) = (''{}'', 0, None) \<and>
   url_Parse ex_env ex_no_port = Inr \<lparr>URL_Host = ''graylog'', URL_String = ex_no_port\<rparr> \<and>
   net_SplitHostPort ex_env ''graylog'' =
     ('''', '''', Some (errors_New ''missing port in address'')) \<and>
   json_Unmarshal ex_env ''{}'' = Inr \<lparr>total = 0, ResponseMetrics_Metrics = [ex_metric]\<rparr> \<and>
   list_all (\<lambda>m. no_int (VMap (Fields m))) [ex_metric] \<and>
   gatherServer ex_h ex_env [] ex_no_port =
     Inr (None,
          [\<lparr>measurement = ''m'',
            added_fields = [''x'' \<mapsto> VFloat64 float64_1, ''y_z'' \<mapsto> VFloat64 float64_2_5],
            added_tags = [''server'' \<mapsto> '''', ''port'' \<mapsto> '''',
                          ''name'' \<mapsto> ''n'', ''type'' \<mapsto> ''t'']\<rparr>])"
proof -
  obtain sent where s: "sendRequest ex_h ex_env ex_no_port = (sent, ''{}'', 0, None)"
    using ex_sendRequest(2)[of ex_h] by (cases "sendRequest ex_h ex_env ex_no_port") simp
  have n: "list_all (\<lambda>m. no_int (VMap (Fields m))) (ResponseMetrics_Metrics \<lparr>total = 0, ResponseMetrics_Metrics = [ex_metric]\<rparr>)"
    by (simp add: ex_metric_def ex_nested_def)
  have p: "net_SplitHostPort ex_env (URL_Host \<lparr>URL_Host = ''graylog'', URL_String = ex_no_port\<rparr>) =
     ('''', '''', Some (errors_New ''missing port in address''))"
    by (simp add: ex_split)
  from gatherServer_split_error_ignored[OF s ex_parse(3) p ex_unmarshal, of "[]"] n
  show ?thesis using ex_sendRequest(2)[of ex_h] ex_parse(3) ex_split(1) ex_unmarshal n
    by (simp add: ex_record)
qed

lemma json_Marshal_GetTLSConfig_irrelevant:
  "json_Marshal (e\<lparr>GetTLSConfig := g\<rparr>) m = json_Marshal e m"
proof -
  have "json_Marshal (e\<lparr>GetTLSConfig := g\<rparr>) = json_Marshal e"
    by (rule json_Marshal_cong) simp
  then show ?thesis by simp
qed

lemma built_request_GetTLSConfig_irrelevant:
  "built_request h (e\<lparr>GetTLSConfig := g\<rparr>) requestURL = built_request h e requestURL"
  by (simp add: built_request_def json_Marshal_GetTLSConfig_irrelevant
           cong: sum.case_cong option.case_cong)

lemma status_error_GetTLSConfig_irrelevant:
  "status_error (e\<lparr>GetTLSConfig := g\<rparr>) u code = status_error e u code"
  by (simp add: status_error_def)

lemma response_error_GetTLSConfig_irrelevant:
  "response_error (e\<lparr>GetTLSConfig := g\<rparr>) requestURL resp = response_error e requestURL resp"
  by (simp add: response_error_def status_error_GetTLSConfig_irrelevant cong: option.case_cong)

lemma sendRequest_GetTLSConfig_irrelevant:
  "sendRequest h (e\<lparr>GetTLSConfig := g\<rparr>) serverURL = sendRequest h e serverURL"
  by (simp add: sendRequest_unfold built_request_GetTLSConfig_irrelevant
        response_error_GetTLSConfig_irrelevant cong: sum.case_cong)

lemma gatherServer_GetTLSConfig_irrelevant:
  "gatherServer h (e\<lparr>GetTLSConfig := g\<rparr>) acc serverURL = gatherServer h e acc serverURL"
  by (simp add: gatherServer_def sendRequest_GetTLSConfig_irrelevant
           cong: sum.case_cong option.case_cong prod.case_cong)

theorem Gather_result_witness:
  "client ex_h = None \<and>
   GetTLSConfig ex_env (SSLCert ex_h) (SSLKey ex_h) (SSLCA ex_h) (InsecureSkipVerify ex_h)
     = Inr None \<and>
   mset [ex_bad, ex_multiple, ex_namespace] = mset (Servers ex_h) \<and>
   json_decodes_no_int ex_env \<and>
   endpoint_error ex_h ex_env ex_multiple = None \<and>
   endpoint_error ex_h ex_env ex_bad = Some (invalid_url_error ex_bad) \<and>
   endpoint_error ex_h ex_env ex_namespace = Some (status_error ex_env ex_namespace 500) \<and>
   Gather ex_h ex_env [ex_bad, ex_multiple, ex_namespace] [] =
     Inr (Some (errors_New (Error (invalid_url_error ex_bad) @ [CHR 0x0A]
                            @ Error (status_error ex_env ex_namespace 500))),
          [record_of ''graylog'' ''12900'' ex_metric],
          ex_h\<lparr>client := Some \<lparr>Transport = \<lparr>ResponseHeaderTimeout = 3 * time_Second,
                                                TLSClientConfig = None\<rparr>,
                                   Timeout = 4 * time_Second\<rparr>\<rparr>) \<and>
   json_decodes_no_int ex_env_no_tls \<and>
   GetTLSConfig ex_env_no_tls (SSLCert ex_h) (SSLKey ex_h) (SSLCA ex_h) (InsecureSkipVerify ex_h)
     = Inl (errors_New ''could not load TLS CA'') \<and>
   Gather ex_h ex_env_no_tls [ex_bad, ex_multiple, ex_namespace] [] =
     Inr (Some (errors_New ''could not load TLS CA''), [], ex_h)"
proof -
  have a1: "client ex_h \<noteq> None \<or>
    (\<exists>tlsCfg. GetTLSConfig ex_env (SSLCert ex_h) (SSLKey ex_h) (SSLCA ex_h)
                (InsecureSkipVerify ex_h) = Inr tlsCfg)"
    by (simp add: ex_env_def)
  have a2: "mset [ex_bad, ex_multiple, ex_namespace] = mset (Servers ex_h)"
    by (simp add: ex_h_def)
  have tls: "GetTLSConfig ex_env (SSLCert ex_h) (SSLKey ex_h) (SSLCA ex_h) (InsecureSkipVerify ex_h)
      = Inr None"
    by (simp add: ex_env_def)
  have c: "client ex_h = None" by (simp add: ex_h_def)
  have j: "json_decodes_no_int ex_env_no_tls"
    using ex_json by (simp add: json_decodes_no_int_def ex_env_no_tls_def)
  have t: "GetTLSConfig ex_env_no_tls (SSLCert ex_h) (SSLKey ex_h) (SSLCA ex_h)
             (InsecureSkipVerify ex_h) = Inl (errors_New ''could not load TLS CA'')"
    by (simp add: ex_env_no_tls_def)
  from Gather_result[OF a2 j, of "[]", THEN conjunct1] c t
  have f: "Gather ex_h ex_env_no_tls [ex_bad, ex_multiple, ex_namespace] [] =
     Inr (Some (errors_New ''could not load TLS CA''), [], ex_h)"
    by (elim allE[of _ "errors_New ''could not load TLS CA''"]) simp
  from Gather_result[OF a2 ex_json, of "[]", THEN conjunct2, rule_format, OF a1]
  obtain err h' where
    g: "Gather ex_h ex_env [ex_bad, ex_multiple, ex_namespace] []
          = Inr (err, [] @ concat (map (endpoint_records ex_h ex_env) [ex_bad, ex_multiple, ex_namespace]), h')"
    and i: "err = None \<longleftrightarrow> (\<forall>server \<in> set (Servers ex_h). endpoint_error ex_h ex_env server = None)"
    and m: "err \<noteq> None \<longrightarrow>
              err = Some (errors_New (strings_Join
                      (map Error (List.map_filter (endpoint_error ex_h ex_env)
                         [ex_bad, ex_multiple, ex_namespace])) [CHR 0x0A]))"
    by (elim exE conjE) (rule that; assumption)
  from i have "err \<noteq> None" by (simp add: ex_h_def ex_endpoint)
  with m have err: "err = Some (errors_New (Error (invalid_url_error ex_bad) @ [CHR 0x0A]
                            @ Error (status_error ex_env ex_namespace 500)))"
    by (simp add: List.map_filter_simps ex_endpoint)
  have h': "Gather ex_h ex_env [ex_bad, ex_multiple, ex_namespace] [] =
     Inr (Some (errors_New (Error (invalid_url_error ex_bad) @ [CHR 0x0A]
                            @ Error (status_error ex_env ex_namespace 500))),
          [record_of ''graylog'' ''12900'' ex_metric],
          ex_h\<lparr>client := Some \<lparr>Transport = \<lparr>ResponseHeaderTimeout = 3 * time_Second,
                                                TLSClientConfig = None\<rparr>,
                                   Timeout = 4 * time_Second\<rparr>\<rparr>)"
    by (simp add: Gather_def c tls ex_gatherServer)
  show ?thesis using c tls a2 ex_json ex_endpoint h' g err j t f by simp
qed

text \<open>
  The claim as it was stated fails when the client is not yet set and the TLS
  configuration cannot be loaded: \<open>Gather\<close> returns that error and adds nothing to the
  accumulator, both with no server configured and with one server whose gather would
  succeed.
\<close>

theorem Gather_result_counterexample:
  "client (ex_h\<lparr>Servers := []\<rparr>) = None \<and>
   GetTLSConfig ex_env_no_tls (SSLCert ex_h) (SSLKey ex_h) (SSLCA ex_h) (InsecureSkipVerify ex_h)
     = Inl (errors_New ''could not load TLS CA'') \<and>
   Gather (ex_h\<lparr>Servers := []\<rparr>) ex_env_no_tls [] [] =
     Inr (Some (errors_New ''could not load TLS CA''), [], ex_h\<lparr>Servers := []\<rparr>) \<and>
   endpoint_error (ex_h\<lparr>Servers := [ex_multiple]\<rparr>) ex_env_no_tls ex_multiple = None \<and>
   Gather (ex_h\<lparr>Servers := [ex_multiple]\<rparr>) ex_env_no_tls [ex_multiple] [] =
     Inr (Some (errors_New ''could not load TLS CA''), [], ex_h\<lparr>Servers := [ex_multiple]\<rparr>)"
proof -
  have e: "endpoint_error (ex_h\<lparr>Servers := [ex_multiple]\<rparr>) ex_env_no_tls ex_multiple = None"
    by (simp add: endpoint_error_def ex_env_no_tls_def gatherServer_GetTLSConfig_irrelevant
          ex_gatherServer)
  have g: "Gather (ex_h\<lparr>Servers := srv\<rparr>) ex_env_no_tls sched [] =
     Inr (Some (errors_New ''could not load TLS CA''), [], ex_h\<lparr>Servers := srv\<rparr>)" for srv sched
    by (simp add: Gather_def ex_h_def ex_env_no_tls_def)
  show ?thesis using e g by (simp add: ex_h_def ex_env_no_tls_def)
qed

end
